theory Spec2Isabelle
  imports Main
begin

chapter \<open>A minimal interactive shell: read-eval loop and built-in commands\<close>

text \<open>
  This theory embeds \<^verbatim>\<open>src/Project2/main.go\<close>. Go strings are byte sequences, so a
  Go \<^verbatim>\<open>string\<close> is a \<^typ>\<open>string\<close> (a list of 8-bit characters). Everything the
  program asks of its surroundings (the operating system, the buffered reader, the two
  writers) is a field of a record of operations over abstract states, so that every result
  below holds for any behaviour of those surroundings. The exit channel is the number of
  signals pending in it, together with its capacity.
\<close>

section \<open>Strings: the library functions used by the dispatcher\<close>

subsection \<open>White space\<close>

text \<open>
  \<^verbatim>\<open>strings.Fields\<close> and \<^verbatim>\<open>strings.TrimSpace\<close> separate at the code points
  for which \<^verbatim>\<open>unicode.IsSpace\<close> holds: U+0009 to U+000D, U+0020, U+0085, U+00A0,
  U+1680, U+2000 to U+200A, U+2028, U+2029, U+202F, U+205F and U+3000. The list below
  holds their UTF-8 encodings. Go decodes a string rune by rune and takes an invalid byte
  as a one-byte rune that is not white space. Every encoding below starts with a byte
  that is no continuation byte (\<^verbatim>\<open>0x80\<close> to \<^verbatim>\<open>0xBF\<close>), so an encoding found at
  some position of the byte sequence always starts a rune there; matching the encodings
  against the bytes therefore finds the same white space as decoding does.
\<close>

definition space_runes :: "string list" where
  "space_runes =
    [[CHR 0x09], [CHR 0x0A], [CHR 0x0B], [CHR 0x0C], [CHR 0x0D], [CHR 0x20],
     [CHR 0xC2, CHR 0x85], [CHR 0xC2, CHR 0xA0],
     [CHR 0xE1, CHR 0x9A, CHR 0x80],
     [CHR 0xE2, CHR 0x80, CHR 0x80], [CHR 0xE2, CHR 0x80, CHR 0x81],
     [CHR 0xE2, CHR 0x80, CHR 0x82], [CHR 0xE2, CHR 0x80, CHR 0x83],
     [CHR 0xE2, CHR 0x80, CHR 0x84], [CHR 0xE2, CHR 0x80, CHR 0x85],
     [CHR 0xE2, CHR 0x80, CHR 0x86], [CHR 0xE2, CHR 0x80, CHR 0x87],
     [CHR 0xE2, CHR 0x80, CHR 0x88], [CHR 0xE2, CHR 0x80, CHR 0x89],
     [CHR 0xE2, CHR 0x80, CHR 0x8A],
     [CHR 0xE2, CHR 0x80, CHR 0xA8], [CHR 0xE2, CHR 0x80, CHR 0xA9],
     [CHR 0xE2, CHR 0x80, CHR 0xAF],
     [CHR 0xE2, CHR 0x81, CHR 0x9F],
     [CHR 0xE3, CHR 0x80, CHR 0x80]]"

text \<open>The number of bytes of the white-space rune at the front of \<open>s\<close>, or \<open>0\<close>.\<close>

definition space_width :: "string \<Rightarrow> nat" where
  "space_width s =
     (case find (\<lambda>e. take (length e) s = e) space_runes of
        None \<Rightarrow> 0
      | Some e \<Rightarrow> length e)"

text \<open>The number of bytes of the white-space rune at the end of \<open>s\<close>, or \<open>0\<close>.\<close>

definition space_width_end :: "string \<Rightarrow> nat" where
  "space_width_end s =
     (case find (\<lambda>e. drop (length s - length e) s = e) space_runes of
        None \<Rightarrow> 0
      | Some e \<Rightarrow> length e)"

subsection \<open>\<^verbatim>\<open>strings.Fields\<close>\<close>

text \<open>
  The scan of \<^verbatim>\<open>strings.Fields\<close>: \<open>cur\<close> is the field under construction (empty
  when the scan is between fields). A white-space rune closes the current field, if there
  is one; any other byte extends it; the end of the string closes the last field.
\<close>

function FieldsFrom :: "string \<Rightarrow> string \<Rightarrow> string list" where
  "FieldsFrom cur s =
     (if s = [] then (if cur = [] then [] else [cur])
      else if 0 < space_width s then
        (if cur = [] then [] else [cur]) @ FieldsFrom [] (drop (space_width s) s)
      else FieldsFrom (cur @ [hd s]) (tl s))"
  by pat_completeness auto
termination
  by (relation "measure (\<lambda>(cur, s). length s)") auto

declare FieldsFrom.simps [simp del]

definition Fields :: "string \<Rightarrow> string list" where
  "Fields s = FieldsFrom [] s"

subsection \<open>\<^verbatim>\<open>strings.TrimSpace\<close>\<close>

function trim_left :: "string \<Rightarrow> string" where
  "trim_left s = (if 0 < space_width s then trim_left (drop (space_width s) s) else s)"
  by pat_completeness auto
termination
proof (relation "measure length")
  show "wf (measure length)" by simp
next
  fix s :: string
  assume pos: "0 < space_width s"
  have "s \<noteq> []"
  proof
    assume "s = []"
    then have "space_width s = 0" by (simp add: space_width_def space_runes_def)
    with pos show False by simp
  qed
  with pos show "(drop (space_width s) s, s) \<in> measure length" by simp
qed

declare trim_left.simps [simp del]

function trim_right :: "string \<Rightarrow> string" where
  "trim_right s =
     (if 0 < space_width_end s then trim_right (take (length s - space_width_end s) s) else s)"
  by pat_completeness auto
termination
proof (relation "measure length")
  show "wf (measure length)" by simp
next
  fix s :: string
  assume pos: "0 < space_width_end s"
  have "s \<noteq> []"
  proof
    assume "s = []"
    then have "space_width_end s = 0" by (simp add: space_width_end_def space_runes_def)
    with pos show False by simp
  qed
  with pos show "(take (length s - space_width_end s) s, s) \<in> measure length" by simp
qed

declare trim_right.simps [simp del]

definition TrimSpace :: "string \<Rightarrow> string" where
  "TrimSpace s = trim_right (trim_left s)"

subsection \<open>\<^verbatim>\<open>strings.Join\<close>\<close>

fun Join :: "string list \<Rightarrow> string \<Rightarrow> string" where
  "Join [] sep = []"
| "Join [x] sep = x"
| "Join (x # y # ys) sep = x @ sep @ Join (y # ys) sep"

section \<open>The surroundings of the program\<close>

text \<open>
  A Go \<^verbatim>\<open>error\<close> is the message it prints; \<^verbatim>\<open>nil\<close> is \<open>None\<close>.
\<close>

type_synonym error = string

text \<open>
  The calls the program makes outside itself, over an operating-system state \<open>'os\<close>
  (file system, working directory, environment, user database, child processes), the state
  \<open>'r\<close> of the buffered reader and the state \<open>'w\<close> of a writer:
  \<^item> \<open>os_Chdir\<close>, \<open>os_Mkdir\<close> (with \<^verbatim>\<open>os.ModePerm\<close>) and \<open>os_Remove\<close> return an
    error or \<^verbatim>\<open>nil\<close> and the state they leave;
  \<^item> \<open>os_Getwd\<close> and \<open>user_Current\<close> (the \<^verbatim>\<open>Username\<close> of \<^verbatim>\<open>user.Current()\<close>)
    only read the state;
  \<^item> \<open>environment\<close> is the table behind \<^verbatim>\<open>os.Environ()\<close>, which reports each entry
    as \<^verbatim>\<open>key=value\<close>; \<open>os_LookupEnv\<close> is \<^verbatim>\<open>os.LookupEnv\<close>;
  \<^item> \<open>cmd_Run\<close> is \<^verbatim>\<open>exec.Command(name, arg...)\<close> followed by \<^verbatim>\<open>Run()\<close>, with
    the child's output on the process's own standard streams, which belong to \<open>'os\<close>;
  \<^item> \<open>ReadString\<close> is \<^verbatim>\<open>bufio.Reader.ReadString('\n')\<close>: the bytes read, an error
    or \<^verbatim>\<open>nil\<close>, and the reader afterwards;
  \<^item> \<open>Write\<close> is \<^verbatim>\<open>io.Writer.Write\<close>: an error or \<^verbatim>\<open>nil\<close>, and the writer
    afterwards. Each \<^verbatim>\<open>fmt.Fprint\<close> call of the program is one \<open>Write\<close>.
\<close>

record ('os, 'r, 'w) platform =
  os_Chdir :: "string \<Rightarrow> 'os \<Rightarrow> error option \<times> 'os"
  os_Mkdir :: "string \<Rightarrow> 'os \<Rightarrow> error option \<times> 'os"
  os_Remove :: "string \<Rightarrow> 'os \<Rightarrow> error option \<times> 'os"
  os_Getwd :: "'os \<Rightarrow> error + string"
  user_Current :: "'os \<Rightarrow> error + string"
  environment :: "'os \<Rightarrow> (string \<times> string) list"
  os_LookupEnv :: "string \<Rightarrow> 'os \<Rightarrow> string option"
  cmd_Run :: "string \<Rightarrow> string list \<Rightarrow> 'os \<Rightarrow> error option \<times> 'os"
  ReadString :: "'r \<Rightarrow> (string \<times> error option) \<times> 'r"
  Write :: "string \<Rightarrow> 'w \<Rightarrow> error option \<times> 'w"

text \<open>
  What \<^verbatim>\<open>runLoop\<close> works on: the operating system, its reader \<^verbatim>\<open>readLoop\<close>, its
  writers \<^verbatim>\<open>w\<close> and \<^verbatim>\<open>errW\<close>, and the number of signals pending in the channel
  \<^verbatim>\<open>exit\<close>. The two writers and the operating system are separate objects.
\<close>

record ('os, 'r, 'w) shell =
  osState :: 'os
  readLoop :: 'r
  outW :: 'w
  errW :: 'w
  exitCh :: nat

text \<open>
  A call either returns or blocks for ever: a send on a full channel that nobody receives
  from never completes.
\<close>

datatype 'a call = Blocked | Returned 'a

text \<open>
  One pass through the body of the \<^verbatim>\<open>for\<close> loop: go round again, \<^verbatim>\<open>return\<close>, or
  stay blocked inside the dispatcher.
\<close>

datatype 's step = Continue 's | Return 's | Deadlock

text \<open>\<^verbatim>\<open>_, _ = fmt.Fprintln(w, a)\<close>: one write of \<open>a\<close> and a newline, its error dropped.\<close>

definition Fprintln :: "('os, 'r, 'w) platform \<Rightarrow> string \<Rightarrow> 'w \<Rightarrow> 'w" where
  "Fprintln P a wr = snd (Write P (a @ [CHR 0x0A]) wr)"

definition os_Environ :: "('os, 'r, 'w) platform \<Rightarrow> 'os \<Rightarrow> string list" where
  "os_Environ P os = map (\<lambda>(k, v). k @ ''='' @ v) (environment P os)"

section \<open>The built-in commands\<close>

text \<open>\<^verbatim>\<open>ChangeDirectory\<close>, lines 102 to 107.\<close>

definition ChangeDirectory ::
  "('os, 'r, 'w) platform \<Rightarrow> string list \<Rightarrow> 'os \<Rightarrow> error option \<times> 'os" where
  "ChangeDirectory P args os =
     (if length args = 0 then (Some ''cd: missing argument'', os)
      else os_Chdir P (args ! 0) os)"

text \<open>\<^verbatim>\<open>EnvironmentVariables\<close>, lines 109 to 127. Both loops run over the whole list.\<close>

definition EnvironmentVariables ::
  "('os, 'r, 'w) platform \<Rightarrow> string list \<Rightarrow> 'os \<Rightarrow> 'w \<Rightarrow> error option \<times> 'w" where
  "EnvironmentVariables P args os wr =
     (if length args = 0 then
        (None, fold (\<lambda>envVar wr'. Fprintln P envVar wr') (os_Environ P os) wr)
      else
        (None, fold (\<lambda>arg wr'.
                  case os_LookupEnv P arg os of
                    Some val \<Rightarrow> snd (Write P (arg @ ''='' @ val @ [CHR 0x0A]) wr')
                  | None \<Rightarrow>
                      snd (Write P (arg @ '' not found in environment variables'' @ [CHR 0x0A]) wr'))
               args wr))"

text \<open>\<^verbatim>\<open>Echo\<close>, lines 129 to 132.\<close>

definition Echo :: "('os, 'r, 'w) platform \<Rightarrow> string list \<Rightarrow> 'w \<Rightarrow> error option \<times> 'w" where
  "Echo P args wr = (None, Fprintln P (Join args '' '') wr)"

text \<open>\<^verbatim>\<open>PrintWorkingDirectory\<close>, lines 134 to 141.\<close>

definition PrintWorkingDirectory ::
  "('os, 'r, 'w) platform \<Rightarrow> 'os \<Rightarrow> 'w \<Rightarrow> error option \<times> 'w" where
  "PrintWorkingDirectory P os wr =
     (case os_Getwd P os of
        Inl err \<Rightarrow> (Some err, wr)
      | Inr wd \<Rightarrow> (None, Fprintln P wd wr))"

text \<open>\<^verbatim>\<open>History\<close>, lines 143 to 147.\<close>

definition History :: "('os, 'r, 'w) platform \<Rightarrow> string list \<Rightarrow> 'w \<Rightarrow> error option \<times> 'w" where
  "History P args wr = (None, Fprintln P ''History command is not implemented yet.'' wr)"

text \<open>
  The loop shared by \<^verbatim>\<open>MakeDirectory\<close> and \<^verbatim>\<open>RemoveFile\<close>:
  \<^verbatim>\<open>for _, x := range args { err := f(x); if err != nil { return err } }; return nil\<close>.
\<close>

primrec range_until_err ::
  "(string \<Rightarrow> 'os \<Rightarrow> error option \<times> 'os) \<Rightarrow> string list \<Rightarrow> 'os \<Rightarrow> error option \<times> 'os" where
  "range_until_err f [] os = (None, os)"
| "range_until_err f (x # xs) os =
     (case f x os of
        (Some err, os') \<Rightarrow> (Some err, os')
      | (None, os') \<Rightarrow> range_until_err f xs os')"

text \<open>\<^verbatim>\<open>MakeDirectory\<close>, lines 149 to 160.\<close>

definition MakeDirectory ::
  "('os, 'r, 'w) platform \<Rightarrow> string list \<Rightarrow> 'os \<Rightarrow> error option \<times> 'os" where
  "MakeDirectory P args os =
     (if length args = 0 then (Some ''mkdir: missing operand'', os)
      else range_until_err (os_Mkdir P) args os)"

text \<open>\<^verbatim>\<open>RemoveFile\<close>, lines 162 to 173.\<close>

definition RemoveFile ::
  "('os, 'r, 'w) platform \<Rightarrow> string list \<Rightarrow> 'os \<Rightarrow> error option \<times> 'os" where
  "RemoveFile P args os =
     (if length args = 0 then (Some ''rm: missing operand'', os)
      else range_until_err (os_Remove P) args os)"

text \<open>\<^verbatim>\<open>executeCommand\<close>, lines 175 to 185.\<close>

definition executeCommand ::
  "('os, 'r, 'w) platform \<Rightarrow> string \<Rightarrow> string list \<Rightarrow> 'os \<Rightarrow> error option \<times> 'os" where
  "executeCommand P name arg os = cmd_Run P name arg os"

section \<open>The dispatcher\<close>

text \<open>How a built-in's result reaches the caller: the error, and the new operating-system
  state or the new state of the writer \<^verbatim>\<open>w\<close>.\<close>

definition on_os ::
  "('os, 'r, 'w) shell \<Rightarrow> error option \<times> 'os \<Rightarrow> (error option \<times> ('os, 'r, 'w) shell) call" where
  "on_os s res = Returned (fst res, s\<lparr>osState := snd res\<rparr>)"

definition on_w ::
  "('os, 'r, 'w) shell \<Rightarrow> error option \<times> 'w \<Rightarrow> (error option \<times> ('os, 'r, 'w) shell) call" where
  "on_w s res = Returned (fst res, s\<lparr>outW := snd res\<rparr>)"

text \<open>
  \<^verbatim>\<open>handleInput\<close>, lines 64 to 100. \<open>cap\<close> is the capacity of the channel \<^verbatim>\<open>exit\<close>:
  the send \<^verbatim>\<open>exit <- struct{}{}\<close> completes when fewer than \<open>cap\<close> signals are pending
  and blocks otherwise, since the only receiver is the caller of \<^verbatim>\<open>handleInput\<close>.
\<close>

definition handleInput ::
  "('os, 'r, 'w) platform \<Rightarrow> nat \<Rightarrow> string \<Rightarrow> ('os, 'r, 'w) shell
     \<Rightarrow> (error option \<times> ('os, 'r, 'w) shell) call" where
  "handleInput P cap input s =
     (let args = Fields (TrimSpace input) in
      if length args = 0 then Returned (None, s)
      else
        let name = args ! 0; args = drop 1 args in
        if name = ''cd'' then on_os s (ChangeDirectory P args (osState s))
        else if name = ''env'' then on_w s (EnvironmentVariables P args (osState s) (outW s))
        else if name = ''exit'' then
          (if exitCh s < cap then Returned (None, s\<lparr>exitCh := exitCh s + 1\<rparr>) else Blocked)
        else if name = ''echo'' then on_w s (Echo P args (outW s))
        else if name = ''pwd'' then on_w s (PrintWorkingDirectory P (osState s) (outW s))
        else if name = ''history'' then on_w s (History P args (outW s))
        else if name = ''mkdir'' then on_os s (MakeDirectory P args (osState s))
        else if name = ''rm'' then on_os s (RemoveFile P args (osState s))
        else on_os s (executeCommand P name args (osState s)))"

section \<open>The loop\<close>

text \<open>\<^verbatim>\<open>printPrompt\<close>, lines 45 to 62; the error of the write is the one returned.\<close>

definition printPrompt ::
  "('os, 'r, 'w) platform \<Rightarrow> 'os \<Rightarrow> 'w \<Rightarrow> error option \<times> 'w" where
  "printPrompt P os wr =
     (case user_Current P os of
        Inl err \<Rightarrow> (Some err, wr)
      | Inr username \<Rightarrow>
          (case os_Getwd P os of
             Inl err \<Rightarrow> (Some err, wr)
           | Inr wd \<Rightarrow> Write P (wd @ '' ['' @ username @ ''] $ '') wr))"

text \<open>\<^verbatim>\<open>_, _ = fmt.Fprintln(errW, err)\<close>.\<close>

definition report ::
  "('os, 'r, 'w) platform \<Rightarrow> error \<Rightarrow> ('os, 'r, 'w) shell \<Rightarrow> ('os, 'r, 'w) shell" where
  "report P err s = s\<lparr>errW := Fprintln P err (errW s)\<rparr>"

text \<open>The branch \<^verbatim>\<open>case <-exit\<close>, lines 26 to 28: one signal is received, the notice is
  written.\<close>

definition exiting :: "('os, 'r, 'w) platform \<Rightarrow> ('os, 'r, 'w) shell \<Rightarrow> ('os, 'r, 'w) shell" where
  "exiting P s =
     s\<lparr>exitCh := exitCh s - 1, outW := Fprintln P ''exiting gracefully...'' (outW s)\<rparr>"

text \<open>
  The body of the \<^verbatim>\<open>for\<close> loop of \<^verbatim>\<open>runLoop\<close>, lines 25 to 41. The \<^verbatim>\<open>select\<close>
  with a \<^verbatim>\<open>default\<close> branch receives when a signal is pending and never waits.
\<close>

definition iteration ::
  "('os, 'r, 'w) platform \<Rightarrow> nat \<Rightarrow> ('os, 'r, 'w) shell \<Rightarrow> ('os, 'r, 'w) shell step" where
  "iteration P cap s =
     (if 0 < exitCh s then Return (exiting P s)
      else
        case printPrompt P (osState s) (outW s) of
          (Some err, wr) \<Rightarrow> Continue (report P err (s\<lparr>outW := wr\<rparr>))
        | (None, wr) \<Rightarrow>
            (case ReadString P (readLoop s) of
               ((input, Some err), rd) \<Rightarrow>
                 Continue (report P err (s\<lparr>outW := wr, readLoop := rd\<rparr>))
             | ((input, None), rd) \<Rightarrow>
                 (case handleInput P cap input (s\<lparr>outW := wr, readLoop := rd\<rparr>) of
                    Blocked \<Rightarrow> Deadlock
                  | Returned (Some err, s') \<Rightarrow> Continue (report P err s')
                  | Returned (None, s') \<Rightarrow> Continue s')))"

text \<open>
  \<^verbatim>\<open>runLoop\<close>, lines 18 to 43. The loop may run for ever: \<open>None\<close> is the run that never
  returns, \<open>Some s\<close> the run that returns and leaves \<open>s\<close>.
\<close>

partial_function (option) runLoop ::
  "('os, 'r, 'w) platform \<Rightarrow> nat \<Rightarrow> ('os, 'r, 'w) shell \<Rightarrow> ('os, 'r, 'w) shell option" where
  "runLoop P cap s =
     (case iteration P cap s of
        Continue s' \<Rightarrow> runLoop P cap s'
      | Return s' \<Rightarrow> Some s'
      | Deadlock \<Rightarrow> None)"

text \<open>The first \<open>n\<close> passes of the loop: \<open>Continue s\<close> is the state in which pass \<open>n + 1\<close>
  starts.\<close>

primrec iterations ::
  "('os, 'r, 'w) platform \<Rightarrow> nat \<Rightarrow> nat \<Rightarrow> ('os, 'r, 'w) shell \<Rightarrow> ('os, 'r, 'w) shell step" where
  "iterations P cap 0 s = Continue s"
| "iterations P cap (Suc n) s =
     (case iteration P cap s of
        Continue s' \<Rightarrow> iterations P cap n s'
      | Return s' \<Rightarrow> Return s'
      | Deadlock \<Rightarrow> Deadlock)"

text \<open>\<^verbatim>\<open>main\<close>, lines 13 to 16: \<^verbatim>\<open>make(chan struct{}, 2)\<close>, an empty channel.\<close>

definition exit_capacity :: nat where
  "exit_capacity = 2"

definition main ::
  "('os, 'r, 'w) platform \<Rightarrow> 'os \<Rightarrow> 'r \<Rightarrow> 'w \<Rightarrow> 'w \<Rightarrow> ('os, 'r, 'w) shell option" where
  "main P os stdin stdout stderr =
     runLoop P exit_capacity
       \<lparr>osState = os, readLoop = stdin, outW = stdout, errW = stderr, exitCh = 0\<rparr>"

section \<open>Notions used to state the properties\<close>

text \<open>A line that consists of white space only: a sequence of white-space runes.\<close>

function all_space :: "string \<Rightarrow> bool" where
  "all_space s =
     (if s = [] then True
      else if 0 < space_width s then all_space (drop (space_width s) s)
      else False)"
  by pat_completeness auto
termination
  by (relation "measure length") auto

declare all_space.simps [simp del]

text \<open>The arguments, each one after the first preceded by one space.\<close>

primrec space_separated :: "string list \<Rightarrow> string" where
  "space_separated [] = []"
| "space_separated (a # as) = a @ concat (map (\<lambda>x. CHR 0x20 # x) as)"

text \<open>The writer after a sequence of writes, one for each element, in order.\<close>

definition writes :: "('os, 'r, 'w) platform \<Rightarrow> string list \<Rightarrow> 'w \<Rightarrow> 'w" where
  "writes P ps wr = fold (\<lambda>p wr'. snd (Write P p wr')) ps wr"

text \<open>The state after \<open>f\<close> has been applied to every item in order, when every application
  succeeds.\<close>

primrec applied ::
  "(string \<Rightarrow> 'os \<Rightarrow> error option \<times> 'os) \<Rightarrow> string list \<Rightarrow> 'os \<Rightarrow> 'os option" where
  "applied f [] os = Some os"
| "applied f (x # xs) os =
     (case f x os of (None, os') \<Rightarrow> applied f xs os' | (Some err, os') \<Rightarrow> None)"

text \<open>Continuation bytes of UTF-8, and the length an encoding has by its first byte.\<close>

definition is_cont :: "char \<Rightarrow> bool" where
  "is_cont c = (128 \<le> (of_char c :: nat) \<and> (of_char c :: nat) < 192)"

definition lead_len :: "char \<Rightarrow> nat" where
  "lead_len c =
     (if (of_char c :: nat) < 128 then 1 else if (of_char c :: nat) < 224 then 2 else 3)"

section \<open>A simulated platform\<close>

text \<open>
  A small concrete platform on which the results are exercised: a file system of directory
  and file names with a working directory, an environment, a log of the system calls
  attempted, a reader over the bytes not yet read, and writers that append to a buffer.
\<close>

record sim_os =
  cwd :: string
  dirs :: "string list"
  files :: "string list"
  vars :: "(string \<times> string) list"
  syscalls :: "string list"

fun sim_ReadString :: "string \<Rightarrow> (string \<times> error option) \<times> string" where
  "sim_ReadString [] = (([], Some ''EOF''), [])"
| "sim_ReadString (c # r) =
     (if c = CHR 0x0A then (([c], None), r)
      else (case sim_ReadString r of ((line, err), r') \<Rightarrow> ((c # line, err), r')))"

definition sim :: "(sim_os, string, string) platform" where
  "sim =
     \<lparr>os_Chdir = (\<lambda>d os.
        if d \<in> set (dirs os)
        then (None, os\<lparr>cwd := d, syscalls := syscalls os @ [''chdir '' @ d]\<rparr>)
        else (Some (''chdir '' @ d @ '': no such file or directory''),
              os\<lparr>syscalls := syscalls os @ [''chdir '' @ d]\<rparr>)),
      os_Mkdir = (\<lambda>d os.
        if d \<in> set (dirs os)
        then (Some (''mkdir '' @ d @ '': file exists''),
              os\<lparr>syscalls := syscalls os @ [''mkdir '' @ d]\<rparr>)
        else (None, os\<lparr>dirs := dirs os @ [d], syscalls := syscalls os @ [''mkdir '' @ d]\<rparr>)),
      os_Remove = (\<lambda>f os.
        if f \<in> set (files os)
        then (None, os\<lparr>files := removeAll f (files os),
                        syscalls := syscalls os @ [''remove '' @ f]\<rparr>)
        else (Some (''remove '' @ f @ '': no such file or directory''),
              os\<lparr>syscalls := syscalls os @ [''remove '' @ f]\<rparr>)),
      os_Getwd = (\<lambda>os. Inr (cwd os)),
      user_Current = (\<lambda>os. Inr ''user''),
      environment = vars,
      os_LookupEnv = (\<lambda>k os. map_of (vars os) k),
      cmd_Run = (\<lambda>name arg os.
        (Some (''exec: '' @ name @ '': executable file not found in $PATH''),
         os\<lparr>syscalls := syscalls os @ [''exec '' @ name]\<rparr>)),
      ReadString = sim_ReadString,
      Write = (\<lambda>p wr. (None, wr @ p))\<rparr>"

definition sim_os0 :: sim_os where
  "sim_os0 =
     \<lparr>cwd = ''/'', dirs = [''/'', ''b''], files = [''f''], vars = [(''FOO'', ''bar'')],
      syscalls = []\<rparr>"

definition sim_shell :: "string \<Rightarrow> (sim_os, string, string) shell" where
  "sim_shell stdin =
     \<lparr>osState = sim_os0, readLoop = stdin, outW = [], errW = [], exitCh = 0\<rparr>"

section \<open>Properties of white space and of the tokenizer\<close>

lemma space_runes_shape:
  "\<forall>e \<in> set space_runes. e \<noteq> [] \<and> \<not> is_cont (hd e) \<and> (\<forall>c \<in> set (tl e). is_cont c) \<and> length e = lead_len (hd e)"
  unfolding space_runes_def is_cont_def lead_len_def by simp

lemma take_length_le: "take (length e) s = e \<Longrightarrow> length e \<le> length s"
  by (drule arg_cong [where f = length]) simp

lemma space_width_hit:
  assumes "e \<in> set space_runes" and "take (length e) s = e"
  shows "space_width s = length e"
proof -
  from assms have "find (\<lambda>e. take (length e) s = e) space_runes \<noteq> None"
    by (auto simp: find_None_iff)
  then obtain e' where f: "find (\<lambda>e. take (length e) s = e) space_runes = Some e'"
    by blast
  then have e': "e' \<in> set space_runes" "take (length e') s = e'"
    by (auto simp: find_Some_iff)
  from assms e' space_runes_shape have ne: "e \<noteq> []" "e' \<noteq> []"
    and len: "length e = lead_len (hd e)" "length e' = lead_len (hd e')"
    by blast+
  from ne assms(2) have "hd e = hd s" by (metis hd_take length_greater_0_conv)
  moreover from ne e'(2) have "hd e' = hd s" by (metis hd_take length_greater_0_conv)
  ultimately have "length e' = length e" using len by simp
  with f show ?thesis by (simp add: space_width_def)
qed

lemma space_width_pos:
  assumes "0 < space_width s"
  shows "\<exists>e \<in> set space_runes. take (length e) s = e \<and> space_width s = length e"
proof (cases "find (\<lambda>e. take (length e) s = e) space_runes")
  case None
  with assms show ?thesis by (simp add: space_width_def)
next
  case (Some e)
  then have "e \<in> set space_runes" "take (length e) s = e"
    by (auto simp: find_Some_iff)
  moreover from Some have "space_width s = length e" by (simp add: space_width_def)
  ultimately show ?thesis by blast
qed

lemma space_width_le: "space_width s \<le> length s"
proof (cases "0 < space_width s")
  case True
  then obtain e where "take (length e) s = e" "space_width s = length e"
    using space_width_pos by blast
  then show ?thesis using take_length_le [of e s] by simp
next
  case False
  then show ?thesis by simp
qed

lemma space_width_Nil [simp]: "space_width [] = 0"
  using space_width_le [of "[]"] by simp

lemma space_width_append_hit:
  assumes "0 < space_width t"
  shows "space_width (t @ r) = space_width t"
proof -
  from assms obtain e where e: "e \<in> set space_runes" "take (length e) t = e"
    "space_width t = length e"
    using space_width_pos by blast
  then have "length e \<le> length t" by (simp add: take_length_le)
  with e(2) have "take (length e) (t @ r) = e" by simp
  with e show ?thesis by (simp add: space_width_hit)
qed

lemma space_width_append_miss:
  assumes "space_width t = 0" and "t \<noteq> []" and "r = [] \<or> \<not> is_cont (hd r)"
  shows "space_width (t @ r) = 0"
proof (rule ccontr)
  assume "space_width (t @ r) \<noteq> 0"
  then obtain e where e: "e \<in> set space_runes" "take (length e) (t @ r) = e"
    using space_width_pos [of "t @ r"] by auto
  show False
  proof (cases "length e \<le> length t")
    case True
    with e(2) have "take (length e) t = e" by simp
    with e(1) assms(1) space_runes_shape show False
      using space_width_hit [of e t] by auto
  next
    case False
    then have lt: "length t < length e" by simp
    from e(2) have "length e \<le> length (t @ r)" by (rule take_length_le)
    with lt have rne: "r \<noteq> []" by auto
    from e(2) lt have "e ! length t = (t @ r) ! length t"
      by (metis nth_take)
    also have "\<dots> = hd r" using rne by (simp add: nth_append hd_conv_nth)
    finally have eq: "e ! length t = hd r" .
    from assms(2) have "0 < length t" by simp
    with lt have "e ! length t \<in> set (tl e)"
      by (metis Suc_pred in_set_conv_nth length_tl less_diff_conv nth_tl Suc_eq_plus1)
    with e(1) space_runes_shape have "is_cont (e ! length t)" by blast
    with eq rne assms(3) show False by simp
  qed
qed

lemma space_width_lead:
  assumes "0 < space_width s"
  shows "s \<noteq> [] \<and> \<not> is_cont (hd s)"
proof -
  from assms obtain e where e: "e \<in> set space_runes" "take (length e) s = e"
    using space_width_pos by blast
  with space_runes_shape have "e \<noteq> []" "\<not> is_cont (hd e)" by blast+
  moreover from this e(2) have "hd e = hd s" by (metis hd_take length_greater_0_conv)
  ultimately show ?thesis using e(2) by auto
qed

lemma space_width_end_pos:
  assumes "0 < space_width_end s"
  shows "\<exists>e \<in> set space_runes. s = take (length s - space_width_end s) s @ e
           \<and> space_width_end s = length e"
proof (cases "find (\<lambda>e. drop (length s - length e) s = e) space_runes")
  case None
  with assms show ?thesis by (simp add: space_width_end_def)
next
  case (Some e)
  then have e: "e \<in> set space_runes" "drop (length s - length e) s = e"
    by (auto simp: find_Some_iff)
  from Some have w: "space_width_end s = length e" by (simp add: space_width_end_def)
  have "s = take (length s - length e) s @ drop (length s - length e) s" by simp
  with e w show ?thesis by auto
qed

lemma FieldsFrom_Nil [simp]: "FieldsFrom cur [] = (if cur = [] then [] else [cur])"
  by (simp add: FieldsFrom.simps)

lemma FieldsFrom_split:
  assumes "0 < space_width r"
  shows "FieldsFrom cur (t @ r) = FieldsFrom cur t @ FieldsFrom [] r"
proof (induction cur t rule: FieldsFrom.induct)
  case (1 cur s)
  from assms have r: "r \<noteq> []" "\<not> is_cont (hd r)" using space_width_lead by blast+
  show ?case
  proof (cases "s = []")
    case True
    with assms r show ?thesis
      by (simp add: FieldsFrom.simps [of cur r] FieldsFrom.simps [of "[]" r])
  next
    case ne: False
    show ?thesis
    proof (cases "0 < space_width s")
      case True
      then have w: "space_width (s @ r) = space_width s" by (rule space_width_append_hit)
      have "drop (space_width s) (s @ r) = drop (space_width s) s @ r"
        using space_width_le [of s] by simp
      with ne True w "1.IH"(1) show ?thesis
        by (simp add: FieldsFrom.simps [of cur "s @ r"] FieldsFrom.simps [of cur s])
    next
      case False
      then have "space_width s = 0" by simp
      with ne r have w: "space_width (s @ r) = 0" by (simp add: space_width_append_miss)
      with ne False "1.IH"(2) show ?thesis
        by (simp add: FieldsFrom.simps [of cur "s @ r"] FieldsFrom.simps [of cur s])
    qed
  qed
qed

lemma space_runes_width: "e \<in> set space_runes \<Longrightarrow> space_width e = length e"
  by (simp add: space_width_hit)

lemma space_runes_pos: "e \<in> set space_runes \<Longrightarrow> 0 < length e"
  using space_runes_shape by blast

lemma FieldsFrom_space_rune:
  assumes "e \<in> set space_runes"
  shows "FieldsFrom [] e = []"
  using assms space_runes_pos [OF assms]
  by (simp add: FieldsFrom.simps [of "[]" e] space_runes_width)

lemma FieldsFrom_trim_left: "FieldsFrom [] (trim_left s) = FieldsFrom [] s"
proof (induction s rule: trim_left.induct)
  case (1 s)
  show ?case
  proof (cases "0 < space_width s")
    case True
    then have "s \<noteq> []" using space_width_lead by blast
    with True "1.IH" show ?thesis
      by (simp add: trim_left.simps [of s] FieldsFrom.simps [of "[]" s])
  next
    case False
    then show ?thesis by (simp add: trim_left.simps [of s])
  qed
qed

lemma FieldsFrom_trim_right: "FieldsFrom cur (trim_right s) = FieldsFrom cur s"
proof (induction s rule: trim_right.induct)
  case (1 s)
  show ?case
  proof (cases "0 < space_width_end s")
    case True
    then obtain e where e: "e \<in> set space_runes"
      "s = take (length s - space_width_end s) s @ e"
      using space_width_end_pos by blast
    let ?t = "take (length s - space_width_end s) s"
    from e(1) have "0 < space_width e"
      using space_runes_width [of e] space_runes_pos [of e] by simp
    then have "FieldsFrom cur (?t @ e) = FieldsFrom cur ?t @ FieldsFrom [] e"
      by (rule FieldsFrom_split)
    moreover have "FieldsFrom [] e = []" using e(1) by (rule FieldsFrom_space_rune)
    ultimately have "FieldsFrom cur (?t @ e) = FieldsFrom cur ?t" by simp
    with e(2) have "FieldsFrom cur s = FieldsFrom cur ?t" by simp
    with True "1.IH" show ?thesis by (simp add: trim_right.simps [of s])
  next
    case False
    then show ?thesis by (simp add: trim_right.simps [of s])
  qed
qed

lemma Fields_TrimSpace: "Fields (TrimSpace s) = Fields s"
  by (simp add: Fields_def TrimSpace_def FieldsFrom_trim_right FieldsFrom_trim_left)

lemma FieldsFrom_nonempty: "[] \<notin> set (FieldsFrom cur s)"
  by (induction cur s rule: FieldsFrom.induct) (simp add: FieldsFrom.simps)

lemma FieldsFrom_all_space:
  "all_space ws \<Longrightarrow> FieldsFrom [] (ws @ b) = FieldsFrom [] b"
proof (induction ws rule: all_space.induct)
  case (1 s)
  show ?case
  proof (cases "s = []")
    case True
    then show ?thesis by simp
  next
    case False
    with "1.prems" have pos: "0 < space_width s" and rest: "all_space (drop (space_width s) s)"
      by (auto simp: all_space.simps [of s] split: if_splits)
    have "space_width (s @ b) = space_width s" using pos by (rule space_width_append_hit)
    moreover have "drop (space_width s) (s @ b) = drop (space_width s) s @ b"
      using space_width_le [of s] by simp
    ultimately have "FieldsFrom [] (s @ b) = FieldsFrom [] (drop (space_width s) s @ b)"
      using pos False by (simp add: FieldsFrom.simps [of "[]" "s @ b"])
    with "1.IH" False pos rest show ?thesis by simp
  qed
qed

lemma Fields_all_space: "all_space s \<Longrightarrow> Fields s = []"
  using FieldsFrom_all_space [of s "[]"] by (simp add: Fields_def)

lemma Fields_collapse:
  assumes "all_space ws" and "ws \<noteq> []"
  shows "Fields (a @ ws @ b) = Fields a @ Fields b"
proof -
  from assms have "0 < space_width ws" by (auto simp: all_space.simps [of ws] split: if_splits)
  then have "0 < space_width (ws @ b)" by (simp add: space_width_append_hit)
  then have "FieldsFrom [] (a @ ws @ b) = FieldsFrom [] a @ FieldsFrom [] (ws @ b)"
    by (rule FieldsFrom_split)
  with assms(1) show ?thesis by (simp add: Fields_def FieldsFrom_all_space)
qed

lemma FieldsFrom_cur: "cur \<noteq> [] \<Longrightarrow> FieldsFrom cur s \<noteq> []"
  by (induction cur s rule: FieldsFrom.induct) (simp add: FieldsFrom.simps)

lemma Fields_Nil_all_space: "Fields s = [] \<Longrightarrow> all_space s"
  unfolding Fields_def
proof (induction s rule: all_space.induct)
  case (1 s)
  show ?case
  proof (cases "s = []")
    case True
    then show ?thesis by (simp add: all_space.simps)
  next
    case ne: False
    show ?thesis
    proof (cases "0 < space_width s")
      case True
      with ne "1.prems" have "FieldsFrom [] (drop (space_width s) s) = []"
        by (simp add: FieldsFrom.simps [of "[]" s])
      with ne True "1.IH" show ?thesis by (simp add: all_space.simps [of s])
    next
      case False
      with ne "1.prems" have "FieldsFrom [hd s] (tl s) = []"
        by (simp add: FieldsFrom.simps [of "[]" s])
      then show ?thesis using FieldsFrom_cur [of "[hd s]" "tl s"] by simp
    qed
  qed
qed

lemma Join_space_separated: "Join args '' '' = space_separated args"
  by (induction args "'' ''" rule: Join.induct) simp_all

lemma writes_map: "writes P (map g xs) wr = fold (\<lambda>x wr'. snd (Write P (g x) wr')) xs wr"
  by (simp add: writes_def fold_map comp_def)

lemma range_until_err_applied:
  "applied f pre os = Some os1 \<Longrightarrow> range_until_err f (pre @ xs) os = range_until_err f xs os1"
  by (induction pre arbitrary: os) (auto split: prod.splits option.splits)

lemma Fields_echo_spaced: "Fields ''echo   a   b'' = [''echo'', ''a'', ''b'']"
  by code_simp

lemma Fields_echo_single: "Fields ''echo a b'' = [''echo'', ''a'', ''b'']"
  by code_simp

lemma all_space_single: "all_space '' ''"
  by code_simp

lemma on_w_simps [simp]: "on_w s (e, wr) = Returned (e, s\<lparr>outW := wr\<rparr>)"
  by (simp add: on_w_def)

lemma on_os_simps [simp]: "on_os s (e, os) = Returned (e, s\<lparr>osState := os\<rparr>)"
  by (simp add: on_os_def)

section \<open>Properties of the dispatcher and of the loop\<close>

lemma handleInput_Nil:
  "Fields input = [] \<Longrightarrow> handleInput P cap input s = Returned (None, s)"
  by (simp add: handleInput_def Fields_TrimSpace)

lemma handleInput_Cons:
  assumes "Fields input = name # args"
  shows "handleInput P cap input s =
     (if name = ''cd'' then on_os s (ChangeDirectory P args (osState s))
      else if name = ''env'' then on_w s (EnvironmentVariables P args (osState s) (outW s))
      else if name = ''exit'' then
        (if exitCh s < cap then Returned (None, s\<lparr>exitCh := exitCh s + 1\<rparr>) else Blocked)
      else if name = ''echo'' then on_w s (Echo P args (outW s))
      else if name = ''pwd'' then on_w s (PrintWorkingDirectory P (osState s) (outW s))
      else if name = ''history'' then on_w s (History P args (outW s))
      else if name = ''mkdir'' then on_os s (MakeDirectory P args (osState s))
      else if name = ''rm'' then on_os s (RemoveFile P args (osState s))
      else on_os s (executeCommand P name args (osState s)))"
  unfolding handleInput_def Fields_TrimSpace assms Let_def by simp

lemma runLoop_Continue:
  "iteration P cap s = Continue s' \<Longrightarrow> runLoop P cap s = runLoop P cap s'"
  by (subst runLoop.simps) simp

lemma runLoop_Return:
  "iteration P cap s = Return s' \<Longrightarrow> runLoop P cap s = Some s'"
  by (subst runLoop.simps) simp

lemma runLoop_Deadlock:
  "iteration P cap s = Deadlock \<Longrightarrow> runLoop P cap s = None"
  by (subst runLoop.simps) simp

lemma runLoop_iterations_Continue:
  "iterations P cap n s = Continue t \<Longrightarrow> runLoop P cap s = runLoop P cap t"
proof (induction n arbitrary: s)
  case 0
  then show ?case by simp
next
  case (Suc n)
  then show ?case
    by (cases "iteration P cap s") (simp_all add: runLoop_Continue)
qed

lemma runLoop_iterations_Return:
  "iterations P cap n s = Return t \<Longrightarrow> runLoop P cap s = Some t"
proof (induction n arbitrary: s)
  case 0
  then show ?case by simp
next
  case (Suc n)
  then show ?case
    by (cases "iteration P cap s") (simp_all add: runLoop_Continue runLoop_Return)
qed

lemma runLoop_Some_iterations:
  assumes "runLoop P cap s = Some t"
  shows "\<exists>n. iterations P cap n s = Return t"
proof -
  let ?Q = "\<lambda>x y. \<exists>n. iterations (fst (fst x)) (snd (fst x)) n (snd x) = Return y"
  have "?Q ((P, cap), s) t"
  proof (rule runLoop.raw_induct [where Pa = ?Q, OF _ assms])
    fix loop :: "('a, 'b, 'c) platform \<Rightarrow> nat \<Rightarrow> ('a, 'b, 'c) shell \<Rightarrow> ('a, 'b, 'c) shell option"
    fix P cap s t
    assume IH: "\<And>P cap s t. loop P cap s = Some t \<Longrightarrow> ?Q ((P, cap), s) t"
      and step: "(case iteration P cap s of Continue s' \<Rightarrow> loop P cap s'
                  | Return s' \<Rightarrow> Some s' | Deadlock \<Rightarrow> None) = Some t"
    show "?Q ((P, cap), s) t"
    proof (cases "iteration P cap s")
      case (Continue s')
      with step have "loop P cap s' = Some t" by simp
      then obtain n where "iterations P cap n s' = Return t" using IH by fastforce
      with Continue have "iterations P cap (Suc n) s = Return t" by simp
      then show ?thesis by (simp del: iterations.simps) blast
    next
      case (Return s')
      with step have "iterations P cap (Suc 0) s = Return t" by simp
      then show ?thesis by (simp del: iterations.simps) blast
    next
      case Deadlock
      with step show ?thesis by simp
    qed
  qed
  then show ?thesis by simp
qed

lemma iteration_Return_iff:
  "iteration P cap s = Return t \<longleftrightarrow> 0 < exitCh s \<and> t = exiting P s"
  by (auto simp: iteration_def split: prod.splits option.splits call.splits)

lemma iterations_Return_observed:
  "iterations P cap n s = Return t \<Longrightarrow>
     \<exists>m u. m < n \<and> iterations P cap m s = Continue u \<and> 0 < exitCh u \<and> t = exiting P u"
proof (induction n arbitrary: s)
  case 0
  then show ?case by simp
next
  case (Suc n)
  show ?case
  proof (cases "iteration P cap s")
    case (Continue s')
    with Suc.prems have "iterations P cap n s' = Return t" by simp
    then obtain m u where "m < n" "iterations P cap m s' = Continue u" "0 < exitCh u"
      "t = exiting P u" using Suc.IH by blast
    with Continue have "Suc m < Suc n \<and> iterations P cap (Suc m) s = Continue u
        \<and> 0 < exitCh u \<and> t = exiting P u" by simp
    then show ?thesis by blast
  next
    case (Return s')
    with Suc.prems have "s' = t" by simp
    with Return have "0 < exitCh s" "t = exiting P s" by (simp_all add: iteration_Return_iff)
    then have "0 < Suc n \<and> iterations P cap 0 s = Continue s \<and> 0 < exitCh s \<and> t = exiting P s"
      by simp
    then show ?thesis by blast
  next
    case Deadlock
    with Suc.prems show ?thesis by simp
  qed
qed

lemma exitCh_report [simp]: "exitCh (report P err s) = exitCh s"
  by (simp add: report_def)

lemma handleInput_exitCh:
  assumes "handleInput P cap input s = Returned (err, s')"
  shows "exitCh s' = exitCh s \<or> exitCh s' = exitCh s + 1"
proof (cases "Fields input")
  case Nil
  with assms show ?thesis by (simp add: handleInput_Nil)
next
  case (Cons name args)
  from assms show ?thesis
    unfolding handleInput_Cons [OF Cons]
    by (auto simp: on_os_def on_w_def split: if_splits)
qed

lemma handleInput_Blocked:
  assumes "handleInput P cap input s = Blocked"
  shows "cap \<le> exitCh s"
proof (cases "Fields input")
  case Nil
  with assms show ?thesis by (simp add: handleInput_Nil)
next
  case (Cons name args)
  from assms show ?thesis
    unfolding handleInput_Cons [OF Cons]
    by (auto simp: on_os_def on_w_def split: if_splits)
qed

lemma iteration_exitCh:
  assumes "exitCh s \<le> 1" and "1 \<le> cap"
  shows "case iteration P cap s of
           Continue s' \<Rightarrow> exitCh s' \<le> 1
         | Return s' \<Rightarrow> exitCh s' = 0
         | Deadlock \<Rightarrow> False"
proof (cases "0 < exitCh s")
  case True
  with assms show ?thesis by (simp add: iteration_def exiting_def)
next
  case False
  then have z: "exitCh s = 0" by simp
  show ?thesis
  proof (cases "printPrompt P (osState s) (outW s)")
    case (Pair perr wr)
    show ?thesis
    proof (cases perr)
      case (Some e)
      with Pair z show ?thesis by (simp add: iteration_def)
    next
      case None
      show ?thesis
      proof (cases "ReadString P (readLoop s)")
        case (Pair a rd)
        obtain input rerr where a: "a = (input, rerr)" by (cases a)
        show ?thesis
        proof (cases rerr)
          case (Some e)
          with \<open>printPrompt P (osState s) (outW s) = (perr, wr)\<close> None Pair a z show ?thesis by (simp add: iteration_def)
        next
          case rnone: None
          let ?s1 = "s\<lparr>outW := wr, readLoop := rd\<rparr>"
          have z1: "exitCh ?s1 = 0" using z by simp
          show ?thesis
          proof (cases "handleInput P cap input ?s1")
            case Blocked
            from handleInput_Blocked [OF Blocked] z1 assms(2) show ?thesis by simp
          next
            case (Returned res)
            obtain herr s' where res: "res = (herr, s')" by (cases res)
            from handleInput_exitCh [OF Returned [unfolded res]] z1
            have "exitCh s' \<le> 1" by auto
            with \<open>printPrompt P (osState s) (outW s) = (perr, wr)\<close> None Pair a rnone z Returned res show ?thesis
              by (cases herr) (simp_all add: iteration_def)
          qed
        qed
      qed
    qed
  qed
qed

lemma iterations_exitCh:
  assumes "1 \<le> cap"
  shows "exitCh s \<le> 1 \<Longrightarrow>
         (case iterations P cap n s of
            Continue s' \<Rightarrow> exitCh s' \<le> 1
          | Return s' \<Rightarrow> exitCh s' = 0
          | Deadlock \<Rightarrow> False)"
proof (induction n arbitrary: s)
  case 0
  then show ?case by simp
next
  case (Suc n)
  from iteration_exitCh [OF Suc.prems assms, of P] Suc.IH show ?case
    by (cases "iteration P cap s") simp_all
qed

lemma iteration_exit_line:
  assumes "exitCh s = 0" and "0 < cap"
    and "printPrompt P (osState s) (outW s) = (None, wr)"
    and "ReadString P (readLoop s) = ((input, None), rd)"
    and "Fields input = ''exit'' # args"
  shows "iteration P cap s = Continue (s\<lparr>outW := wr, readLoop := rd, exitCh := 1\<rparr>)"
  using assms by (simp add: iteration_def handleInput_Cons)

lemma iteration_read_error:
  assumes "exitCh s = 0"
    and "printPrompt P (osState s) (outW s) = (None, wr)"
    and "ReadString P (readLoop s) = ((partial, Some err), rd)"
  shows "iteration P cap s
          = Continue (s\<lparr>outW := wr, readLoop := rd, errW := Fprintln P err (errW s)\<rparr>)"
  using assms by (simp add: iteration_def report_def)

lemma iteration_failing_reader:
  assumes stuck: "\<And>r. E r \<Longrightarrow> \<exists>partial err r'. ReadString P r = ((partial, Some err), r') \<and> E r'"
    and "E (readLoop s)" and "exitCh s = 0"
  shows "\<exists>s'. iteration P cap s = Continue s' \<and> E (readLoop s') \<and> exitCh s' = 0"
proof -
  from stuck [OF assms(2)] obtain partial err r'
    where rd: "ReadString P (readLoop s) = ((partial, Some err), r')" and E: "E r'" by blast
  show ?thesis
  proof (cases "printPrompt P (osState s) (outW s)")
    case (Pair perr wr)
    with rd E assms(2,3) show ?thesis
      by (cases perr) (simp_all add: iteration_def report_def)
  qed
qed

lemma iterations_failing_reader:
  assumes stuck: "\<And>r. E r \<Longrightarrow> \<exists>partial err r'. ReadString P r = ((partial, Some err), r') \<and> E r'"
  shows "E (readLoop s) \<Longrightarrow> exitCh s = 0 \<Longrightarrow>
         \<exists>s'. iterations P cap n s = Continue s' \<and> E (readLoop s') \<and> exitCh s' = 0"
proof (induction n arbitrary: s)
  case 0
  then show ?case by simp
next
  case (Suc n)
  from iteration_failing_reader [of E P s cap, OF stuck Suc.prems]
  obtain s1 where s1: "iteration P cap s = Continue s1" "E (readLoop s1)" "exitCh s1 = 0"
    by blast
  from Suc.IH [OF s1(2,3)] s1(1) show ?case by simp
qed

lemma iterations_add:
  "iterations P cap (n + m) s =
     (case iterations P cap n s of
        Continue s' \<Rightarrow> iterations P cap m s'
      | Return s' \<Rightarrow> Return s'
      | Deadlock \<Rightarrow> Deadlock)"
proof (induction n arbitrary: s)
  case 0
  then show ?case by simp
next
  case (Suc n)
  then show ?case by (cases "iteration P cap s") simp_all
qed

lemma handleInput_exit:
  "Fields input = ''exit'' # args \<Longrightarrow> exitCh s < cap \<Longrightarrow>
     handleInput P cap input s = Returned (None, s\<lparr>exitCh := exitCh s + 1\<rparr>)"
  by (simp add: handleInput_Cons)

section \<open>The claims\<close>

text \<open>
  Claim C1. Let the loop, started in \<open>s0\<close>, stand at the top of a pass in a state
  \<open>s\<close> with no signal pending, let the prompt be printed and let the line that is read
  have \<^verbatim>\<open>exit\<close> as its first token. Then the dispatcher returns \<^verbatim>\<open>nil\<close> with
  exactly one signal enqueued and nothing else changed; this pass ends without returning
  from the loop; the next pass finds the signal at its check, writes the notice
  \<^verbatim>\<open>exiting gracefully...\<close> once and returns. The state it returns holds the reader as
  it was right after the \<^verbatim>\<open>exit\<close> line was read, and the operating system and the
  error writer as they were before it: nothing behind that line is read or dispatched.
\<close>

theorem exit_terminates_at_next_check:
  assumes "iterations P cap n s0 = Continue s"
    and "exitCh s = 0" and "0 < cap"
    and "printPrompt P (osState s) (outW s) = (None, wr)"
    and "ReadString P (readLoop s) = ((input, None), rd)"
    and "Fields input = ''exit'' # args"
  shows "handleInput P cap input (s\<lparr>outW := wr, readLoop := rd\<rparr>)
           = Returned (None, s\<lparr>outW := wr, readLoop := rd, exitCh := 1\<rparr>)
    \<and> iteration P cap s = Continue (s\<lparr>outW := wr, readLoop := rd, exitCh := 1\<rparr>)
    \<and> iterations P cap (n + 2) s0
           = Return (s\<lparr>outW := Fprintln P ''exiting gracefully...'' wr, readLoop := rd\<rparr>)
    \<and> runLoop P cap s0
           = Some (s\<lparr>outW := Fprintln P ''exiting gracefully...'' wr, readLoop := rd\<rparr>)"
proof -
  let ?s1 = "s\<lparr>outW := wr, readLoop := rd, exitCh := 1\<rparr>"
  let ?s2 = "s\<lparr>outW := Fprintln P ''exiting gracefully...'' wr, readLoop := rd\<rparr>"
  have disp: "handleInput P cap input (s\<lparr>outW := wr, readLoop := rd\<rparr>) = Returned (None, ?s1)"
    using assms(2,3,6) by (simp add: handleInput_exit)
  have it1: "iteration P cap s = Continue ?s1"
    using assms(2-6) by (rule iteration_exit_line)
  have "exiting P ?s1 = ?s2" using assms(2) by (simp add: exiting_def)
  then have it2: "iteration P cap ?s1 = Return ?s2" by (simp add: iteration_Return_iff)
  from it1 it2 have two: "iterations P cap 2 s = Return ?s2"
    by (simp add: numeral_2_eq_2)
  have run: "iterations P cap (n + 2) s0 = Return ?s2"
    unfolding iterations_add assms(1) using two by simp
  from run have loop: "runLoop P cap s0 = Some ?s2" by (rule runLoop_iterations_Return)
  show ?thesis by (rule conjI [OF disp conjI [OF it1 conjI [OF run loop]]])
qed

theorem exit_terminates_at_next_check_witness:
  "iterations sim 2 1
       (sim_shell (''echo hi'' @ [CHR 0x0A] @ ''exit'' @ [CHR 0x0A] @ ''echo no'' @ [CHR 0x0A]))
     = Continue ((sim_shell (''exit'' @ [CHR 0x0A] @ ''echo no'' @ [CHR 0x0A]))
                   \<lparr>outW := ''/ [user] $ hi'' @ [CHR 0x0A]\<rparr>)
   \<and> ReadString sim (''exit'' @ [CHR 0x0A] @ ''echo no'' @ [CHR 0x0A])
       = ((''exit'' @ [CHR 0x0A], None), ''echo no'' @ [CHR 0x0A])
   \<and> Fields (''exit'' @ [CHR 0x0A]) = [''exit'']
   \<and> runLoop sim 2
         (sim_shell (''echo hi'' @ [CHR 0x0A] @ ''exit'' @ [CHR 0x0A] @ ''echo no'' @ [CHR 0x0A]))
       = Some ((sim_shell (''echo no'' @ [CHR 0x0A]))
                 \<lparr>outW := ''/ [user] $ hi'' @ [CHR 0x0A] @ ''/ [user] $ exiting gracefully...''
                           @ [CHR 0x0A]\<rparr>)"
proof -
  let ?init = "sim_shell (''echo hi'' @ [CHR 0x0A] @ ''exit'' @ [CHR 0x0A] @ ''echo no'' @ [CHR 0x0A])"
  let ?mid = "(sim_shell (''exit'' @ [CHR 0x0A] @ ''echo no'' @ [CHR 0x0A]))
              \<lparr>outW := ''/ [user] $ hi'' @ [CHR 0x0A]\<rparr>"
  let ?wr = "''/ [user] $ hi'' @ [CHR 0x0A] @ ''/ [user] $ ''"
  have h1: "iterations sim 2 1 ?init = Continue ?mid" by code_simp
  have h2: "exitCh ?mid = 0" by code_simp
  have h3: "(0::nat) < 2" by simp
  have h4: "printPrompt sim (osState ?mid) (outW ?mid) = (None, ?wr)" by code_simp
  have h5: "ReadString sim (readLoop ?mid) = ((''exit'' @ [CHR 0x0A], None), ''echo no'' @ [CHR 0x0A])"
    by code_simp
  have h6: "Fields (''exit'' @ [CHR 0x0A]) = ''exit'' # []" by code_simp
  have fin: "?mid\<lparr>outW := Fprintln sim ''exiting gracefully...'' ?wr,
                 readLoop := ''echo no'' @ [CHR 0x0A]\<rparr>
       = (sim_shell (''echo no'' @ [CHR 0x0A]))
                 \<lparr>outW := ''/ [user] $ hi'' @ [CHR 0x0A] @ ''/ [user] $ exiting gracefully...''
                           @ [CHR 0x0A]\<rparr>"
    by code_simp
  have rd: "readLoop ?mid = ''exit'' @ [CHR 0x0A] @ ''echo no'' @ [CHR 0x0A]" by code_simp
  note r = exit_terminates_at_next_check [OF h1 h2 h3 h4 h5 h6]
  have run: "runLoop sim 2 ?init = Some ((sim_shell (''echo no'' @ [CHR 0x0A]))
                 \<lparr>outW := ''/ [user] $ hi'' @ [CHR 0x0A] @ ''/ [user] $ exiting gracefully...''
                           @ [CHR 0x0A]\<rparr>)"
    using r [THEN conjunct2, THEN conjunct2, THEN conjunct2] by (simp only: fin)
  have h5': "ReadString sim (''exit'' @ [CHR 0x0A] @ ''echo no'' @ [CHR 0x0A])
       = ((''exit'' @ [CHR 0x0A], None), ''echo no'' @ [CHR 0x0A])"
    using h5 by (simp only: rd)
  show ?thesis by (rule conjI [OF h1 conjI [OF h5' conjI [OF h6 run]]])
qed

text \<open>
  Claim C2. For every line that is empty or consists of white space only, the
  dispatcher returns \<^verbatim>\<open>nil\<close> and leaves everything as it was: the writer, the
  operating system and the exit channel.
\<close>

theorem blank_line_is_noop:
  assumes "all_space input"
  shows "handleInput P cap input s = Returned (None, s)"
  using assms by (simp add: handleInput_Nil Fields_all_space)

theorem blank_line_is_noop_witness:
  "all_space [CHR 0x20, CHR 0x09, CHR 0x0A]
   \<and> handleInput sim 2 [CHR 0x20, CHR 0x09, CHR 0x0A] (sim_shell ''pwd'')
       = Returned (None, sim_shell ''pwd'')
   \<and> all_space []
   \<and> handleInput sim 2 [] (sim_shell ''pwd'') = Returned (None, sim_shell ''pwd'')"
proof -
  have h: "all_space [CHR 0x20, CHR 0x09, CHR 0x0A]" by code_simp
  have e: "all_space []" by code_simp
  show ?thesis
    using h blank_line_is_noop [OF h, of sim 2 "sim_shell ''pwd''"]
      e blank_line_is_noop [OF e, of sim 2 "sim_shell ''pwd''"]
    by (intro conjI)
qed

text \<open>
  Claim C3. When the read of a pass fails, whatever the error (the end of the input
  is one), the pass writes the error to \<^verbatim>\<open>errW\<close>, dispatches nothing and the loop goes
  round again. Whenever the loop returns, it has reached the top of a pass with a signal
  pending, and returns from there. On a reader that fails at every read from some point on,
  as one at the end of its input does, a loop with no signal pending never returns.
\<close>

theorem read_failure_restarts_iteration:
  "(exitCh s = 0 \<and> printPrompt P (osState s) (outW s) = (None, wr)
      \<and> ReadString P (readLoop s) = ((partial, Some err), rd) \<longrightarrow>
      iteration P cap s
        = Continue (s\<lparr>outW := wr, readLoop := rd, errW := Fprintln P err (errW s)\<rparr>))
   \<and> (runLoop P cap s = Some t \<longrightarrow>
        (\<exists>n u. iterations P cap n s = Continue u \<and> 0 < exitCh u \<and> t = exiting P u))
   \<and> ((\<forall>r. E r \<longrightarrow> (\<exists>partial err r'. ReadString P r = ((partial, Some err), r') \<and> E r'))
        \<and> E (readLoop s) \<and> exitCh s = 0 \<longrightarrow> runLoop P cap s = None)"
proof (intro conjI impI)
  assume "exitCh s = 0 \<and> printPrompt P (osState s) (outW s) = (None, wr)
      \<and> ReadString P (readLoop s) = ((partial, Some err), rd)"
  then show "iteration P cap s
        = Continue (s\<lparr>outW := wr, readLoop := rd, errW := Fprintln P err (errW s)\<rparr>)"
    by (simp add: iteration_read_error)
next
  assume "runLoop P cap s = Some t"
  then have "\<exists>n. iterations P cap n s = Return t" by (rule runLoop_Some_iterations)
  then obtain n where "iterations P cap n s = Return t" ..
  then have "\<exists>m u. m < n \<and> iterations P cap m s = Continue u \<and> 0 < exitCh u \<and> t = exiting P u"
    by (rule iterations_Return_observed)
  then obtain m u where "iterations P cap m s = Continue u \<and> 0 < exitCh u \<and> t = exiting P u"
    by blast
  then have "\<exists>u. iterations P cap m s = Continue u \<and> 0 < exitCh u \<and> t = exiting P u" ..
  then show "\<exists>n u. iterations P cap n s = Continue u \<and> 0 < exitCh u \<and> t = exiting P u" ..
next
  assume a: "(\<forall>r. E r \<longrightarrow> (\<exists>partial err r'. ReadString P r = ((partial, Some err), r') \<and> E r'))
        \<and> E (readLoop s) \<and> exitCh s = 0"
  then have all: "\<forall>r. E r \<longrightarrow> (\<exists>partial err r'. ReadString P r = ((partial, Some err), r') \<and> E r')"
    and E0: "E (readLoop s)" and z: "exitCh s = 0"
    by (rule conjunct1, rule conjunct2 [THEN conjunct1], rule conjunct2 [THEN conjunct2])
  have stuck: "\<And>r. E r \<Longrightarrow> \<exists>partial err r'. ReadString P r = ((partial, Some err), r') \<and> E r'"
    by (rule all [rule_format])
  show "runLoop P cap s = None"
  proof (rule ccontr)
    assume "runLoop P cap s \<noteq> None"
    then obtain t where "runLoop P cap s = Some t" by (cases "runLoop P cap s") simp_all
    then have "\<exists>n. iterations P cap n s = Return t" by (rule runLoop_Some_iterations)
    then obtain n where n: "iterations P cap n s = Return t" ..
    have "\<exists>s'. iterations P cap n s = Continue s' \<and> E (readLoop s') \<and> exitCh s' = 0"
      using stuck E0 z by (rule iterations_failing_reader)
    then obtain s' where "iterations P cap n s = Continue s'" by (elim exE conjE)
    with n show False by simp
  qed
qed

theorem read_failure_restarts_iteration_witness:
  "ReadString sim ''ls'' = ((''ls'', Some ''EOF''), [])
   \<and> iteration sim 2 (sim_shell ''ls'')
       = Continue ((sim_shell [])\<lparr>outW := ''/ [user] $ '', errW := ''EOF'' @ [CHR 0x0A]\<rparr>)
   \<and> runLoop sim 2 (sim_shell (''exit'' @ [CHR 0x0A]))
       = Some ((sim_shell [])\<lparr>outW := ''/ [user] $ exiting gracefully...'' @ [CHR 0x0A]\<rparr>)
   \<and> (\<exists>n u. iterations sim 2 n (sim_shell (''exit'' @ [CHR 0x0A])) = Continue u \<and> 0 < exitCh u
         \<and> (sim_shell [])\<lparr>outW := ''/ [user] $ exiting gracefully...'' @ [CHR 0x0A]\<rparr>
             = exiting sim u)
   \<and> ReadString sim [] = (([], Some ''EOF''), [])
   \<and> runLoop sim 2 (sim_shell []) = None"
proof -
  let ?final = "(sim_shell [])\<lparr>outW := ''/ [user] $ exiting gracefully...'' @ [CHR 0x0A]\<rparr>"
  note t = read_failure_restarts_iteration
  have a1: "exitCh (sim_shell ''ls'') = 0" by code_simp
  have a2: "printPrompt sim (osState (sim_shell ''ls'')) (outW (sim_shell ''ls''))
      = (None, ''/ [user] $ '')" by code_simp
  have a3: "ReadString sim (readLoop (sim_shell ''ls'')) = ((''ls'', Some ''EOF''), [])"
    by code_simp
  have a3': "ReadString sim ''ls'' = ((''ls'', Some ''EOF''), [])" by code_simp
  have w: "(sim_shell ''ls'')\<lparr>outW := ''/ [user] $ '', readLoop := [],
              errW := Fprintln sim ''EOF'' (errW (sim_shell ''ls''))\<rparr>
      = (sim_shell [])\<lparr>outW := ''/ [user] $ '', errW := ''EOF'' @ [CHR 0x0A]\<rparr>"
    by code_simp
  have c1: "iteration sim 2 (sim_shell ''ls'')
       = Continue ((sim_shell [])\<lparr>outW := ''/ [user] $ '', errW := ''EOF'' @ [CHR 0x0A]\<rparr>)"
    using t [THEN conjunct1, rule_format, OF conjI [OF a1 conjI [OF a2 a3]], of 2]
    by (simp only: w)
  have "iterations sim 2 2 (sim_shell (''exit'' @ [CHR 0x0A])) = Return ?final" by code_simp
  then have b1: "runLoop sim 2 (sim_shell (''exit'' @ [CHR 0x0A])) = Some ?final"
    by (rule runLoop_iterations_Return)
  have c2: "\<exists>n u. iterations sim 2 n (sim_shell (''exit'' @ [CHR 0x0A])) = Continue u \<and> 0 < exitCh u
         \<and> ?final = exiting sim u"
    using t [THEN conjunct2, THEN conjunct1, rule_format, OF b1] .
  have e1: "\<forall>r. r = [] \<longrightarrow>
      (\<exists>partial err r'. ReadString sim r = ((partial, Some err), r') \<and> r' = [])"
    by (simp add: sim_def)
  have e2: "readLoop (sim_shell []) = []" by code_simp
  have e3: "exitCh (sim_shell []) = 0" by code_simp
  have e4: "ReadString sim [] = (([], Some ''EOF''), [])" by code_simp
  have c3: "runLoop sim 2 (sim_shell []) = None"
    using t [where E = "\<lambda>r. r = []", THEN conjunct2, THEN conjunct2, rule_format,
        OF conjI [OF e1 conjI [OF e2 e3]]] .
  show ?thesis using a3' c1 b1 c2 e4 c3 by (intro conjI)
qed

text \<open>
  Claim C4. \<^verbatim>\<open>mkdir\<close> and \<^verbatim>\<open>rm\<close> with no argument return a missing-operand
  error and leave the operating system as it is. With arguments \<open>pre @ x # post\<close>, where
  every item of \<open>pre\<close> succeeds in order and \<open>x\<close> then fails, the error of \<open>x\<close> is
  returned with the state that the items of \<open>pre\<close> and the failed attempt on \<open>x\<close> left:
  nothing is undone, and the result does not depend on \<open>post\<close>, which is not attempted.
  When every argument succeeds the result is \<^verbatim>\<open>nil\<close>.
\<close>

theorem mkdir_rm_abort_on_first_failure:
  "MakeDirectory P [] os = (Some ''mkdir: missing operand'', os)
   \<and> RemoveFile P [] os = (Some ''rm: missing operand'', os)
   \<and> (applied (os_Mkdir P) pre os = Some os1 \<and> os_Mkdir P x os1 = (Some err, os2) \<longrightarrow>
        MakeDirectory P (pre @ x # post) os = (Some err, os2))
   \<and> (applied (os_Remove P) pre os = Some os1 \<and> os_Remove P x os1 = (Some err, os2) \<longrightarrow>
        RemoveFile P (pre @ x # post) os = (Some err, os2))
   \<and> (args \<noteq> [] \<and> applied (os_Mkdir P) args os = Some os1 \<longrightarrow>
        MakeDirectory P args os = (None, os1))
   \<and> (args \<noteq> [] \<and> applied (os_Remove P) args os = Some os1 \<longrightarrow>
        RemoveFile P args os = (None, os1))"
proof (intro conjI impI)
  show "MakeDirectory P [] os = (Some ''mkdir: missing operand'', os)"
    by (simp add: MakeDirectory_def)
next
  show "RemoveFile P [] os = (Some ''rm: missing operand'', os)"
    by (simp add: RemoveFile_def)
next
  assume "applied (os_Mkdir P) pre os = Some os1 \<and> os_Mkdir P x os1 = (Some err, os2)"
  then show "MakeDirectory P (pre @ x # post) os = (Some err, os2)"
    by (simp add: MakeDirectory_def range_until_err_applied)
next
  assume "applied (os_Remove P) pre os = Some os1 \<and> os_Remove P x os1 = (Some err, os2)"
  then show "RemoveFile P (pre @ x # post) os = (Some err, os2)"
    by (simp add: RemoveFile_def range_until_err_applied)
next
  assume "args \<noteq> [] \<and> applied (os_Mkdir P) args os = Some os1"
  then show "MakeDirectory P args os = (None, os1)"
    using range_until_err_applied [of "os_Mkdir P" args os os1 "[]"]
    by (simp add: MakeDirectory_def)
next
  assume "args \<noteq> [] \<and> applied (os_Remove P) args os = Some os1"
  then show "RemoveFile P args os = (None, os1)"
    using range_until_err_applied [of "os_Remove P" args os os1 "[]"]
    by (simp add: RemoveFile_def)
qed

theorem mkdir_rm_abort_on_first_failure_witness:
  "applied (os_Mkdir sim) [''a''] sim_os0
       = Some (sim_os0\<lparr>dirs := [''/'', ''b'', ''a''], syscalls := [''mkdir a'']\<rparr>)
   \<and> MakeDirectory sim [''a'', ''b'', ''c''] sim_os0
       = (Some ''mkdir b: file exists'',
          sim_os0\<lparr>dirs := [''/'', ''b'', ''a''], syscalls := [''mkdir a'', ''mkdir b'']\<rparr>)
   \<and> applied (os_Remove sim) [''f''] sim_os0
       = Some (sim_os0\<lparr>files := [], syscalls := [''remove f'']\<rparr>)
   \<and> RemoveFile sim [''f'', ''g'', ''h''] sim_os0
       = (Some ''remove g: no such file or directory'',
          sim_os0\<lparr>files := [], syscalls := [''remove f'', ''remove g'']\<rparr>)
   \<and> MakeDirectory sim [''a''] sim_os0
       = (None, sim_os0\<lparr>dirs := [''/'', ''b'', ''a''], syscalls := [''mkdir a'']\<rparr>)
   \<and> RemoveFile sim [''f''] sim_os0
       = (None, sim_os0\<lparr>files := [], syscalls := [''remove f'']\<rparr>)
   \<and> MakeDirectory sim [] sim_os0 = (Some ''mkdir: missing operand'', sim_os0)
   \<and> RemoveFile sim [] sim_os0 = (Some ''rm: missing operand'', sim_os0)"
proof -
  let ?made = "sim_os0\<lparr>dirs := [''/'', ''b'', ''a''], syscalls := [''mkdir a'']\<rparr>"
  let ?mfail = "sim_os0\<lparr>dirs := [''/'', ''b'', ''a''], syscalls := [''mkdir a'', ''mkdir b'']\<rparr>"
  let ?removed = "sim_os0\<lparr>files := [], syscalls := [''remove f'']\<rparr>"
  let ?rfail = "sim_os0\<lparr>files := [], syscalls := [''remove f'', ''remove g'']\<rparr>"
  have m1: "applied (os_Mkdir sim) [''a''] sim_os0 = Some ?made" by code_simp
  have m2: "os_Mkdir sim ''b'' ?made = (Some ''mkdir b: file exists'', ?mfail)" by code_simp
  have r1: "applied (os_Remove sim) [''f''] sim_os0 = Some ?removed" by code_simp
  have r2: "os_Remove sim ''g'' ?removed = (Some ''remove g: no such file or directory'', ?rfail)"
    by code_simp
  have ne1: "[''a''] \<noteq> ([] :: string list)" and ne2: "[''f''] \<noteq> ([] :: string list)"
    by simp_all
  note t = mkdir_rm_abort_on_first_failure
  have c1: "MakeDirectory sim ([''a''] @ ''b'' # [''c'']) sim_os0
      = (Some ''mkdir b: file exists'', ?mfail)"
    using t [THEN conjunct2, THEN conjunct2, THEN conjunct1, rule_format, OF conjI [OF m1 m2]] .
  have c2: "RemoveFile sim ([''f''] @ ''g'' # [''h'']) sim_os0
      = (Some ''remove g: no such file or directory'', ?rfail)"
    using t [THEN conjunct2, THEN conjunct2, THEN conjunct2, THEN conjunct1, rule_format,
        OF conjI [OF r1 r2]] .
  have c3: "MakeDirectory sim [''a''] sim_os0 = (None, ?made)"
    using t [THEN conjunct2, THEN conjunct2, THEN conjunct2, THEN conjunct2, THEN conjunct1,
        rule_format, OF conjI [OF ne1 m1]] .
  have c4: "RemoveFile sim [''f''] sim_os0 = (None, ?removed)"
    using t [THEN conjunct2, THEN conjunct2, THEN conjunct2, THEN conjunct2, THEN conjunct2,
        rule_format, OF conjI [OF ne2 r1]] .
  have c5: "MakeDirectory sim [] sim_os0 = (Some ''mkdir: missing operand'', sim_os0)"
    using t [THEN conjunct1] .
  have c6: "RemoveFile sim [] sim_os0 = (Some ''rm: missing operand'', sim_os0)"
    using t [THEN conjunct2, THEN conjunct1] .
  have app1: "[''a''] @ ''b'' # [''c''] = [''a'', ''b'', ''c'']"
    and app2: "[''f''] @ ''g'' # [''h''] = [''f'', ''g'', ''h'']" by simp_all
  show ?thesis
    using m1 c1 [unfolded app1] r1 c2 [unfolded app2] c3 c4 c5 c6 by (intro conjI)
qed

text \<open>
  Claim C5. \<^verbatim>\<open>strings.Fields\<close> yields no empty token, and a non-empty run of white
  space between two parts of a line separates them as a single space does. Two lines with
  the same tokens are dispatched with the same result and the same effects. Dispatching
  \<^verbatim>\<open>echo   a   b\<close> writes exactly \<^verbatim>\<open>a b\<close> and a newline, as dispatching
  \<^verbatim>\<open>echo a b\<close> does.
\<close>

theorem tokenization_collapses_whitespace:
  "[] \<notin> set (Fields input)
   \<and> (all_space ws \<and> ws \<noteq> [] \<longrightarrow> Fields (a @ ws @ b) = Fields (a @ '' '' @ b))
   \<and> (Fields input = Fields input' \<longrightarrow> handleInput P cap input s = handleInput P cap input' s)
   \<and> handleInput P cap ''echo   a   b'' s
       = Returned (None, s\<lparr>outW := snd (Write P (''a b'' @ [CHR 0x0A]) (outW s))\<rparr>)
   \<and> handleInput P cap ''echo a b'' s
       = Returned (None, s\<lparr>outW := snd (Write P (''a b'' @ [CHR 0x0A]) (outW s))\<rparr>)"
proof (intro conjI impI)
  show "[] \<notin> set (Fields input)" by (simp add: Fields_def FieldsFrom_nonempty)
next
  assume "all_space ws \<and> ws \<noteq> []"
  then have "Fields (a @ ws @ b) = Fields a @ Fields b" by (simp add: Fields_collapse)
  also have "\<dots> = Fields (a @ '' '' @ b)"
    using Fields_collapse [OF all_space_single, of a b] by simp
  finally show "Fields (a @ ws @ b) = Fields (a @ '' '' @ b)" .
next
  assume "Fields input = Fields input'"
  then show "handleInput P cap input s = handleInput P cap input' s"
    by (simp add: handleInput_def Fields_TrimSpace)
next
  show "handleInput P cap ''echo   a   b'' s
       = Returned (None, s\<lparr>outW := snd (Write P (''a b'' @ [CHR 0x0A]) (outW s))\<rparr>)"
    by (simp add: handleInput_Cons [OF Fields_echo_spaced] Echo_def Fprintln_def)
next
  show "handleInput P cap ''echo a b'' s
       = Returned (None, s\<lparr>outW := snd (Write P (''a b'' @ [CHR 0x0A]) (outW s))\<rparr>)"
    by (simp add: handleInput_Cons [OF Fields_echo_single] Echo_def Fprintln_def)
qed

theorem tokenization_collapses_whitespace_witness:
  "all_space [CHR 0x20, CHR 0x09, CHR 0x20] \<and> [CHR 0x20, CHR 0x09, CHR 0x20] \<noteq> []
   \<and> Fields (''echo'' @ [CHR 0x20, CHR 0x09, CHR 0x20] @ ''a'') = Fields (''echo'' @ '' '' @ ''a'')
   \<and> Fields ''  echo   a  '' = Fields ''echo a''
   \<and> handleInput sim 2 ''  echo   a  '' (sim_shell []) = handleInput sim 2 ''echo a'' (sim_shell [])
   \<and> handleInput sim 2 ''echo   a   b'' (sim_shell [])
       = Returned (None, (sim_shell [])\<lparr>outW := ''a b'' @ [CHR 0x0A]\<rparr>)"
proof -
  have h1: "all_space [CHR 0x20, CHR 0x09, CHR 0x20] \<and> [CHR 0x20, CHR 0x09, CHR 0x20] \<noteq> []"
    by code_simp
  have h2: "Fields ''  echo   a  '' = Fields ''echo a''" by code_simp
  note t = tokenization_collapses_whitespace
    [of "''  echo   a  ''" "[CHR 0x20, CHR 0x09, CHR 0x20]" "''echo''" "''a''" "''echo a''"
      sim 2 "sim_shell []"]
  have c2: "Fields (''echo'' @ [CHR 0x20, CHR 0x09, CHR 0x20] @ ''a'') = Fields (''echo'' @ '' '' @ ''a'')"
    using t [THEN conjunct2, THEN conjunct1, rule_format, OF h1] .
  have c3: "handleInput sim 2 ''  echo   a  '' (sim_shell []) = handleInput sim 2 ''echo a'' (sim_shell [])"
    using t [THEN conjunct2, THEN conjunct2, THEN conjunct1, rule_format, OF h2] .
  have w: "(sim_shell [])\<lparr>outW := snd (Write sim (''a b'' @ [CHR 0x0A]) (outW (sim_shell [])))\<rparr>
      = (sim_shell [])\<lparr>outW := ''a b'' @ [CHR 0x0A]\<rparr>"
    by code_simp
  have c4: "handleInput sim 2 ''echo   a   b'' (sim_shell [])
       = Returned (None, (sim_shell [])\<lparr>outW := ''a b'' @ [CHR 0x0A]\<rparr>)"
    using t [THEN conjunct2, THEN conjunct2, THEN conjunct2, THEN conjunct1] by (simp only: w)
  show ?thesis
    by (rule conjI [OF h1 [THEN conjunct1] conjI [OF h1 [THEN conjunct2]
          conjI [OF c2 conjI [OF h2 conjI [OF c3 c4]]]]])
qed

text \<open>
  Claim C6. The channel made by \<^verbatim>\<open>main\<close> has capacity 2. From the state in
  which \<^verbatim>\<open>main\<close> starts the loop, no number of passes leads to a blocked send; at the
  top of every pass at most one signal is pending, which is within the capacity, and a
  dispatch from there does not block. The check at the top of a pass receives exactly one
  signal when one is pending and returns; when none is pending the pass does not return.
\<close>

theorem exit_signal_never_blocks:
  "2 \<le> exit_capacity
   \<and> main P os stdin stdout stderr
       = runLoop P exit_capacity
           \<lparr>osState = os, readLoop = stdin, outW = stdout, errW = stderr, exitCh = 0\<rparr>
   \<and> iterations P exit_capacity n
        \<lparr>osState = os, readLoop = stdin, outW = stdout, errW = stderr, exitCh = 0\<rparr> \<noteq> Deadlock
   \<and> (iterations P exit_capacity n
        \<lparr>osState = os, readLoop = stdin, outW = stdout, errW = stderr, exitCh = 0\<rparr> = Continue t
       \<longrightarrow> exitCh t \<le> 1 \<and> exitCh t \<le> exit_capacity
           \<and> handleInput P exit_capacity input (t\<lparr>outW := wr, readLoop := rd\<rparr>) \<noteq> Blocked)
   \<and> (0 < exitCh s \<longrightarrow>
        iteration P cap s = Return (exiting P s) \<and> exitCh (exiting P s) = exitCh s - 1)
   \<and> (exitCh s = 0 \<longrightarrow> iteration P cap s \<noteq> Return u)"
proof -
  let ?s0 = "\<lparr>osState = os, readLoop = stdin, outW = stdout, errW = stderr, exitCh = 0\<rparr>"
  have inv: "case iterations P exit_capacity n ?s0 of
            Continue s' \<Rightarrow> exitCh s' \<le> 1
          | Return s' \<Rightarrow> exitCh s' = 0
          | Deadlock \<Rightarrow> False"
    by (rule iterations_exitCh) (simp_all add: exit_capacity_def)
  have live: "iterations P exit_capacity n ?s0 \<noteq> Deadlock"
    using inv by (cases "iterations P exit_capacity n ?s0") simp_all
  have reach: "iterations P exit_capacity n ?s0 = Continue t \<longrightarrow>
      exitCh t \<le> 1 \<and> exitCh t \<le> exit_capacity
      \<and> handleInput P exit_capacity input (t\<lparr>outW := wr, readLoop := rd\<rparr>) \<noteq> Blocked"
  proof (rule impI)
    assume that: "iterations P exit_capacity n ?s0 = Continue t"
    from inv that have le: "exitCh t \<le> 1" by simp
    have "handleInput P exit_capacity input (t\<lparr>outW := wr, readLoop := rd\<rparr>) \<noteq> Blocked"
    proof
      assume "handleInput P exit_capacity input (t\<lparr>outW := wr, readLoop := rd\<rparr>) = Blocked"
      from handleInput_Blocked [OF this] le show False by (simp add: exit_capacity_def)
    qed
    with le show "exitCh t \<le> 1 \<and> exitCh t \<le> exit_capacity
      \<and> handleInput P exit_capacity input (t\<lparr>outW := wr, readLoop := rd\<rparr>) \<noteq> Blocked"
      by (simp add: exit_capacity_def)
  qed
  have poll: "0 < exitCh s \<longrightarrow>
        iteration P cap s = Return (exiting P s) \<and> exitCh (exiting P s) = exitCh s - 1"
    by (simp add: iteration_Return_iff exiting_def)
  have nopoll: "exitCh s = 0 \<longrightarrow> iteration P cap s \<noteq> Return u"
    by (simp add: iteration_Return_iff)
  have cap2: "2 \<le> exit_capacity" by (simp add: exit_capacity_def)
  have m: "main P os stdin stdout stderr = runLoop P exit_capacity ?s0" by (simp add: main_def)
  show ?thesis
    by (rule conjI [OF cap2 conjI [OF m conjI [OF live conjI [OF reach conjI [OF poll nopoll]]]]])
qed

theorem exit_signal_never_blocks_witness:
  "2 \<le> exit_capacity
   \<and> iterations sim exit_capacity 1
       \<lparr>osState = sim_os0, readLoop = ''exit'' @ [CHR 0x0A], outW = [], errW = [], exitCh = 0\<rparr>
     = Continue \<lparr>osState = sim_os0, readLoop = [], outW = ''/ [user] $ '', errW = [], exitCh = 1\<rparr>
   \<and> (1::nat) \<le> exit_capacity
   \<and> handleInput sim exit_capacity ''exit''
        \<lparr>osState = sim_os0, readLoop = [], outW = ''/ [user] $ '', errW = [], exitCh = 1\<rparr>
       \<noteq> Blocked
   \<and> iteration sim exit_capacity
        \<lparr>osState = sim_os0, readLoop = [], outW = ''/ [user] $ '', errW = [], exitCh = 1\<rparr>
       = Return \<lparr>osState = sim_os0, readLoop = [],
           outW = ''/ [user] $ exiting gracefully...'' @ [CHR 0x0A], errW = [], exitCh = 0\<rparr>
   \<and> main sim sim_os0 (''exit'' @ [CHR 0x0A]) [] []
       = Some \<lparr>osState = sim_os0, readLoop = [],
           outW = ''/ [user] $ exiting gracefully...'' @ [CHR 0x0A], errW = [], exitCh = 0\<rparr>"
proof -
  let ?init = "\<lparr>osState = sim_os0, readLoop = ''exit'' @ [CHR 0x0A], outW = ([] :: string),
      errW = ([] :: string), exitCh = 0\<rparr>"
  let ?mid = "\<lparr>osState = sim_os0, readLoop = ([] :: string), outW = ''/ [user] $ '',
      errW = ([] :: string), exitCh = 1\<rparr>"
  let ?final = "\<lparr>osState = sim_os0, readLoop = ([] :: string),
      outW = ''/ [user] $ exiting gracefully...'' @ [CHR 0x0A], errW = ([] :: string), exitCh = 0\<rparr>"
  note t = exit_signal_never_blocks [where P = sim and os = sim_os0
      and stdin = "''exit'' @ [CHR 0x0A]" and stdout = "[]" and stderr = "[]" and n = 1
      and t = ?mid and input = "''exit''" and wr = "''/ [user] $ ''" and rd = "[]"
      and s = ?mid and cap = exit_capacity]
  have h1: "iterations sim exit_capacity 1 ?init = Continue ?mid" by code_simp
  have h2: "0 < exitCh ?mid" by code_simp
  have same: "?mid\<lparr>outW := ''/ [user] $ '', readLoop := []\<rparr> = ?mid" by code_simp
  from t [THEN conjunct2, THEN conjunct2, THEN conjunct2, THEN conjunct1, rule_format, OF h1]
  have r: "exitCh ?mid \<le> 1 \<and> exitCh ?mid \<le> exit_capacity
      \<and> handleInput sim exit_capacity ''exit'' (?mid\<lparr>outW := ''/ [user] $ '', readLoop := []\<rparr>)
          \<noteq> Blocked" .
  have c1: "(1::nat) \<le> exit_capacity"
    using r [THEN conjunct2, THEN conjunct1] by (simp only: shell.simps)
  have c2: "handleInput sim exit_capacity ''exit'' ?mid \<noteq> Blocked"
    using r [THEN conjunct2, THEN conjunct2, unfolded same] .
  have ex: "exiting sim ?mid = ?final" by code_simp
  have c3: "iteration sim exit_capacity ?mid = Return ?final"
    using t [THEN conjunct2, THEN conjunct2, THEN conjunct2, THEN conjunct2, THEN conjunct1,
        rule_format, OF h2, THEN conjunct1]
    by (simp only: ex)
  from h1 c3 have "iterations sim exit_capacity (1 + 1) ?init = Return ?final"
    by (simp only: iterations_add step.case One_nat_def iterations.simps)
  then have "runLoop sim exit_capacity ?init = Some ?final" by (rule runLoop_iterations_Return)
  with t [THEN conjunct2, THEN conjunct1]
  have c4: "main sim sim_os0 (''exit'' @ [CHR 0x0A]) [] [] = Some ?final" by (rule trans)
  show ?thesis using t [THEN conjunct1] h1 c1 c2 c3 c4 by (intro conjI)
qed

text \<open>
  Claim C7. \<^verbatim>\<open>cd\<close> with no argument returns the error
  \<^verbatim>\<open>cd: missing argument\<close> and leaves the operating system, and with it the working
  directory, as it is. With arguments it is \<^verbatim>\<open>os.Chdir\<close> on the first one: its error
  is the one returned.
\<close>

theorem cd_changes_directory:
  "ChangeDirectory P [] os = (Some ''cd: missing argument'', os)
   \<and> ChangeDirectory P (dir # rest) os = os_Chdir P dir os
   \<and> (Fields input = [''cd''] \<longrightarrow>
        handleInput P cap input s = Returned (Some ''cd: missing argument'', s))
   \<and> (Fields input = ''cd'' # dir # rest \<longrightarrow>
        handleInput P cap input s
          = Returned (fst (os_Chdir P dir (osState s)),
                      s\<lparr>osState := snd (os_Chdir P dir (osState s))\<rparr>))"
  by (simp add: ChangeDirectory_def handleInput_Cons on_os_def)

theorem cd_changes_directory_witness:
  "Fields ''cd'' = [''cd'']
   \<and> handleInput sim 2 ''cd'' (sim_shell []) = Returned (Some ''cd: missing argument'', sim_shell [])
   \<and> Fields ''cd b x'' = ''cd'' # ''b'' # [''x'']
   \<and> handleInput sim 2 ''cd b x'' (sim_shell [])
       = Returned (None, (sim_shell [])\<lparr>osState := sim_os0\<lparr>cwd := ''b'', syscalls := [''chdir b'']\<rparr>\<rparr>)"
proof -
  have h1: "Fields ''cd'' = [''cd'']" by code_simp
  have h2: "Fields ''cd b x'' = ''cd'' # ''b'' # [''x'']" by code_simp
  have c1: "handleInput sim 2 ''cd'' (sim_shell []) = Returned (Some ''cd: missing argument'', sim_shell [])"
    using cd_changes_directory [of sim _ _ _ "''cd''" 2 "sim_shell []", THEN conjunct2, THEN conjunct2,
        THEN conjunct1, rule_format, OF h1] .
  have w: "Returned (fst (os_Chdir sim ''b'' (osState (sim_shell []))),
                      (sim_shell [])\<lparr>osState := snd (os_Chdir sim ''b'' (osState (sim_shell [])))\<rparr>)
      = Returned (None, (sim_shell [])\<lparr>osState := sim_os0\<lparr>cwd := ''b'', syscalls := [''chdir b'']\<rparr>\<rparr>)"
    by code_simp
  have c2: "handleInput sim 2 ''cd b x'' (sim_shell [])
       = Returned (None, (sim_shell [])\<lparr>osState := sim_os0\<lparr>cwd := ''b'', syscalls := [''chdir b'']\<rparr>\<rparr>)"
    using cd_changes_directory [of sim _ "''b''" "[''x'']" "''cd b x''" 2 "sim_shell []",
        THEN conjunct2, THEN conjunct2, THEN conjunct2, rule_format, OF h2]
    by (simp only: w)
  show ?thesis by (rule conjI [OF h1 conjI [OF c1 conjI [OF h2 c2]]])
qed

text \<open>
  Claim C8. \<^verbatim>\<open>env\<close> returns \<^verbatim>\<open>nil\<close> for every argument list. With no
  argument it writes one line \<^verbatim>\<open>KEY=VALUE\<close> for every entry of the environment, in
  order. With arguments it writes one line for each argument, in order: \<^verbatim>\<open>KEY=VALUE\<close>
  when the variable is set, and otherwise the argument followed by
  \<^verbatim>\<open> not found in environment variables\<close>.
\<close>

theorem env_prints_variables:
  "fst (EnvironmentVariables P args os wr) = None
   \<and> snd (EnvironmentVariables P [] os wr)
       = writes P (map (\<lambda>(k, v). k @ ''='' @ v @ [CHR 0x0A]) (environment P os)) wr
   \<and> (args \<noteq> [] \<longrightarrow>
        snd (EnvironmentVariables P args os wr)
          = writes P (map (\<lambda>arg. case os_LookupEnv P arg os of
                                     Some val \<Rightarrow> arg @ ''='' @ val @ [CHR 0x0A]
                                   | None \<Rightarrow> arg @ '' not found in environment variables''
                                              @ [CHR 0x0A]) args) wr)"
proof (intro conjI impI)
  show "fst (EnvironmentVariables P args os wr) = None"
    by (simp add: EnvironmentVariables_def)
next
  show "snd (EnvironmentVariables P [] os wr)
       = writes P (map (\<lambda>(k, v). k @ ''='' @ v @ [CHR 0x0A]) (environment P os)) wr"
    by (simp add: EnvironmentVariables_def os_Environ_def writes_def Fprintln_def [abs_def]
        fold_map comp_def case_prod_unfold)
next
  assume "args \<noteq> []"
  have "\<And>arg wr'. (case os_LookupEnv P arg os of
            Some val \<Rightarrow> snd (Write P (arg @ ''='' @ val @ [CHR 0x0A]) wr')
          | None \<Rightarrow> snd (Write P (arg @ '' not found in environment variables'' @ [CHR 0x0A]) wr'))
        = snd (Write P (case os_LookupEnv P arg os of
                          Some val \<Rightarrow> arg @ ''='' @ val @ [CHR 0x0A]
                        | None \<Rightarrow> arg @ '' not found in environment variables'' @ [CHR 0x0A]) wr')"
    by (simp split: option.split)
  with \<open>args \<noteq> []\<close> show "snd (EnvironmentVariables P args os wr)
          = writes P (map (\<lambda>arg. case os_LookupEnv P arg os of
                                     Some val \<Rightarrow> arg @ ''='' @ val @ [CHR 0x0A]
                                   | None \<Rightarrow> arg @ '' not found in environment variables''
                                              @ [CHR 0x0A]) args) wr"
    by (simp add: EnvironmentVariables_def writes_map)
qed

theorem env_prints_variables_witness:
  "[''FOO'', ''NOPE''] \<noteq> []
   \<and> EnvironmentVariables sim [''FOO'', ''NOPE''] sim_os0 []
       = (None, ''FOO=bar'' @ [CHR 0x0A] @ ''NOPE not found in environment variables'' @ [CHR 0x0A])
   \<and> EnvironmentVariables sim [] sim_os0 [] = (None, ''FOO=bar'' @ [CHR 0x0A])"
proof -
  have h: "[''FOO'', ''NOPE''] \<noteq> ([] :: string list)" by simp
  note t = env_prints_variables [of sim "[''FOO'', ''NOPE'']" sim_os0 "[]"]
  have w: "writes sim (map (\<lambda>arg. case os_LookupEnv sim arg sim_os0 of
                                     Some val \<Rightarrow> arg @ ''='' @ val @ [CHR 0x0A]
                                   | None \<Rightarrow> arg @ '' not found in environment variables''
                                              @ [CHR 0x0A]) [''FOO'', ''NOPE'']) []
      = ''FOO=bar'' @ [CHR 0x0A] @ ''NOPE not found in environment variables'' @ [CHR 0x0A]"
    by code_simp
  have s: "snd (EnvironmentVariables sim [''FOO'', ''NOPE''] sim_os0 [])
      = ''FOO=bar'' @ [CHR 0x0A] @ ''NOPE not found in environment variables'' @ [CHR 0x0A]"
    using t [THEN conjunct2, THEN conjunct2, rule_format, OF h] by (simp only: w)
  have c1: "EnvironmentVariables sim [''FOO'', ''NOPE''] sim_os0 []
       = (None, ''FOO=bar'' @ [CHR 0x0A] @ ''NOPE not found in environment variables'' @ [CHR 0x0A])"
    using t [THEN conjunct1] s by (simp only: prod_eq_iff fst_conv snd_conv simp_thms)
  note u = env_prints_variables [of sim "[]" sim_os0 "[]"]
  have w0: "writes sim (map (\<lambda>(k, v). k @ ''='' @ v @ [CHR 0x0A]) (environment sim sim_os0)) []
      = ''FOO=bar'' @ [CHR 0x0A]"
    by code_simp
  have s0: "snd (EnvironmentVariables sim [] sim_os0 []) = ''FOO=bar'' @ [CHR 0x0A]"
    using u [THEN conjunct2, THEN conjunct1] by (simp only: w0)
  have c2: "EnvironmentVariables sim [] sim_os0 [] = (None, ''FOO=bar'' @ [CHR 0x0A])"
    using u [THEN conjunct1] s0 by (simp only: prod_eq_iff fst_conv snd_conv simp_thms)
  show ?thesis by (rule conjI [OF h conjI [OF c1 c2]])
qed

text \<open>
  Claim C9. \<^verbatim>\<open>echo\<close> returns \<^verbatim>\<open>nil\<close> and writes its arguments separated by
  single spaces, followed by a newline; with no argument it writes the newline alone.
\<close>

theorem echo_prints_joined_args:
  "Echo P args wr = (None, snd (Write P (space_separated args @ [CHR 0x0A]) wr))
   \<and> Echo P [] wr = (None, snd (Write P [CHR 0x0A] wr))
   \<and> (Fields input = ''echo'' # args \<longrightarrow>
        handleInput P cap input s
          = Returned (None, s\<lparr>outW := snd (Write P (space_separated args @ [CHR 0x0A]) (outW s))\<rparr>))"
  by (simp add: Echo_def Fprintln_def Join_space_separated handleInput_Cons)

theorem echo_prints_joined_args_witness:
  "Fields ''echo hello   world'' = ''echo'' # [''hello'', ''world'']
   \<and> handleInput sim 2 ''echo hello   world'' (sim_shell [])
       = Returned (None, (sim_shell [])\<lparr>outW := ''hello world'' @ [CHR 0x0A]\<rparr>)"
proof -
  have h: "Fields ''echo hello   world'' = ''echo'' # [''hello'', ''world'']" by code_simp
  have w: "(sim_shell [])\<lparr>outW := snd (Write sim (space_separated [''hello'', ''world''] @ [CHR 0x0A])
                (outW (sim_shell [])))\<rparr>
      = (sim_shell [])\<lparr>outW := ''hello world'' @ [CHR 0x0A]\<rparr>"
    by code_simp
  have c: "handleInput sim 2 ''echo hello   world'' (sim_shell [])
       = Returned (None, (sim_shell [])\<lparr>outW := ''hello world'' @ [CHR 0x0A]\<rparr>)"
    using echo_prints_joined_args [of sim "[''hello'', ''world'']" "[]" "''echo hello   world''" 2
        "sim_shell []", THEN conjunct2, THEN conjunct2, rule_format, OF h]
    by (simp only: w)
  show ?thesis by (rule conjI [OF h c])
qed

text \<open>
  Claim C10. When the dispatcher returns from \<^verbatim>\<open>cd\<close>, \<^verbatim>\<open>mkdir\<close>,
  \<^verbatim>\<open>rm\<close> or \<^verbatim>\<open>exit\<close>, with an error or without, the writer \<^verbatim>\<open>w\<close> is as it
  was. So a built-in after which the writer differs is one of \<^verbatim>\<open>env\<close>,
  \<^verbatim>\<open>echo\<close>, \<^verbatim>\<open>pwd\<close> and \<^verbatim>\<open>history\<close>.
\<close>

theorem silent_builtins_leave_output:
  assumes "Fields input = name # args"
    and "handleInput P cap input s = Returned (err, s')"
  shows "(name \<in> set [''cd'', ''mkdir'', ''rm'', ''exit''] \<longrightarrow> outW s' = outW s)
   \<and> (name \<in> set [''cd'', ''env'', ''exit'', ''echo'', ''pwd'', ''history'', ''mkdir'', ''rm'']
        \<and> outW s' \<noteq> outW s \<longrightarrow> name \<in> set [''env'', ''echo'', ''pwd'', ''history''])"
proof -
  note run = assms(2) [unfolded handleInput_Cons [OF assms(1)]]
  have cd: "name = ''cd'' \<Longrightarrow> outW s' = outW s"
    using run by (auto simp: on_os_def)
  have mkdir: "name = ''mkdir'' \<Longrightarrow> outW s' = outW s"
    using run by (auto simp: on_os_def)
  have rm: "name = ''rm'' \<Longrightarrow> outW s' = outW s"
    using run by (auto simp: on_os_def)
  have exit: "name = ''exit'' \<Longrightarrow> outW s' = outW s"
    using run by (auto split: if_splits)
  from cd mkdir rm exit show ?thesis by fastforce
qed

theorem silent_builtins_leave_output_witness:
  "Fields ''mkdir a'' = ''mkdir'' # [''a'']
   \<and> handleInput sim 2 ''mkdir a'' ((sim_shell [])\<lparr>outW := ''$ ''\<rparr>)
       = Returned (None, (sim_shell [])\<lparr>outW := ''$ '',
            osState := sim_os0\<lparr>dirs := [''/'', ''b'', ''a''], syscalls := [''mkdir a'']\<rparr>\<rparr>)
   \<and> ''mkdir'' \<in> set [''cd'', ''mkdir'', ''rm'', ''exit'']
   \<and> outW ((sim_shell [])\<lparr>outW := ''$ '',
            osState := sim_os0\<lparr>dirs := [''/'', ''b'', ''a''], syscalls := [''mkdir a'']\<rparr>\<rparr>)
       = outW ((sim_shell [])\<lparr>outW := ''$ ''\<rparr>)
   \<and> Fields ''pwd'' = ''pwd'' # []
   \<and> handleInput sim 2 ''pwd'' (sim_shell [])
       = Returned (None, (sim_shell [])\<lparr>outW := ''/'' @ [CHR 0x0A]\<rparr>)
   \<and> outW ((sim_shell [])\<lparr>outW := ''/'' @ [CHR 0x0A]\<rparr>) \<noteq> outW (sim_shell [])
   \<and> ''pwd'' \<in> set [''env'', ''echo'', ''pwd'', ''history'']"
proof -
  let ?before = "(sim_shell [])\<lparr>outW := ''$ ''\<rparr>"
  let ?after = "(sim_shell [])\<lparr>outW := ''$ '',
            osState := sim_os0\<lparr>dirs := [''/'', ''b'', ''a''], syscalls := [''mkdir a'']\<rparr>\<rparr>"
  have h1: "Fields ''mkdir a'' = ''mkdir'' # [''a'']" by code_simp
  have h2: "handleInput sim 2 ''mkdir a'' ?before = Returned (None, ?after)" by code_simp
  have h3: "''mkdir'' \<in> set [''cd'', ''mkdir'', ''rm'', ''exit'']" by simp
  have c1: "outW ?after = outW ?before"
    using silent_builtins_leave_output [OF h1 h2, THEN conjunct1, rule_format, OF h3] .
  have k1: "Fields ''pwd'' = ''pwd'' # []" by code_simp
  have k2: "handleInput sim 2 ''pwd'' (sim_shell [])
       = Returned (None, (sim_shell [])\<lparr>outW := ''/'' @ [CHR 0x0A]\<rparr>)" by code_simp
  have k3: "''pwd'' \<in> set [''cd'', ''env'', ''exit'', ''echo'', ''pwd'', ''history'', ''mkdir'', ''rm'']"
    by simp
  have k4: "outW ((sim_shell [])\<lparr>outW := ''/'' @ [CHR 0x0A]\<rparr>) \<noteq> outW (sim_shell [])"
    by code_simp
  have c2: "''pwd'' \<in> set [''env'', ''echo'', ''pwd'', ''history'']"
    using silent_builtins_leave_output [OF k1 k2, THEN conjunct2, rule_format, OF conjI [OF k3 k4]] .
  show ?thesis using h1 h2 h3 c1 k1 k2 k4 c2 by (intro conjI)
qed

end
